theory Spec2Isabelle
  imports Complex_Main
begin

section \<open>JavaScript helpers used by the components\<close>

text \<open>
  \<^verbatim>\<open>Array.prototype.slice(start, end)\<close> as ECMAScript defines it: a negative index counts
  from the end, every index is clamped to the array, and an empty range gives the empty
  array (it never raises).
\<close>

definition js_slice :: "'a list \<Rightarrow> int \<Rightarrow> int \<Rightarrow> 'a list" where
  "js_slice xs start fin =
     (let len = int (length xs);
          k = (if start < 0 then max (len + start) 0 else min start len);
          final = (if fin < 0 then max (len + fin) 0 else min fin len)
      in take (nat (final - k)) (drop (nat k) xs))"

text \<open>
  \<^verbatim>\<open>String.prototype.includes(needle)\<close>: the needle occurs as a contiguous run of
  characters at some position (case sensitive).
\<close>

fun starts_with :: "string \<Rightarrow> string \<Rightarrow> bool" where
  "starts_with s [] = True"
| "starts_with [] (c # cs) = False"
| "starts_with (x # xs) (c # cs) = (x = c \<and> starts_with xs cs)"

fun js_includes :: "string \<Rightarrow> string \<Rightarrow> bool" where
  "js_includes [] needle = starts_with [] needle"
| "js_includes (x # xs) needle = (starts_with (x # xs) needle \<or> js_includes xs needle)"

section \<open>SearchResults.tsx: the paginated result list\<close>

record SearchResult =
  title :: string
  snippet :: string
  url :: string
  thumbnail :: "string option"

definition resultsPerPage :: int where
  "resultsPerPage = 5"

text \<open>
  \<^verbatim>\<open>results.slice(page * resultsPerPage, (page + 1) * resultsPerPage)\<close>
\<close>

definition paginatedResults :: "SearchResult list \<Rightarrow> int \<Rightarrow> SearchResult list" where
  "paginatedResults results page =
     js_slice results (page * resultsPerPage) ((page + 1) * resultsPerPage)"

text \<open>
  \<^verbatim>\<open>Math.ceil(results.length / resultsPerPage)\<close>. The quotient is taken in the rationals:
  for an array length (below \<open>2^32\<close>) the double quotient is exact at multiples of 5 and
  otherwise at least 1/5 away from an integer, so the ceiling of the double is the
  ceiling of the exact quotient.
\<close>

definition totalPages :: "SearchResult list \<Rightarrow> int" where
  "totalPages results = \<lceil>rat_of_nat (length results) / rat_of_int resultsPerPage\<rceil>"

text \<open>The pagination block is rendered under \<^verbatim>\<open>totalPages > 1 && (...)\<close>.\<close>

definition paginationRendered :: "SearchResult list \<Rightarrow> bool" where
  "paginationRendered results = (totalPages results > 1)"

text \<open>The two buttons carry \<^verbatim>\<open>disabled={page === 0}\<close> and
  \<^verbatim>\<open>disabled={page === totalPages - 1}\<close>.\<close>

definition previousDisabled :: "int \<Rightarrow> bool" where
  "previousDisabled page = (page = 0)"

definition nextDisabled :: "SearchResult list \<Rightarrow> int \<Rightarrow> bool" where
  "nextDisabled results page = (page = totalPages results - 1)"

text \<open>The state updaters handed to \<^verbatim>\<open>setPage\<close>.\<close>

definition previousUpdater :: "int \<Rightarrow> int" where
  "previousUpdater p = max 0 (p - 1)"

definition nextUpdater :: "SearchResult list \<Rightarrow> int \<Rightarrow> int" where
  "nextUpdater results p = min (totalPages results - 1) (p + 1)"

datatype button = Previous | Next

text \<open>
  One click. A button that is not rendered, or is rendered disabled, delivers no click
  event, so the page is left as it is; otherwise the button's updater runs.
\<close>

fun onClick :: "SearchResult list \<Rightarrow> int \<Rightarrow> button \<Rightarrow> int" where
  "onClick results page Previous =
     (if paginationRendered results \<and> \<not> previousDisabled page
      then previousUpdater page else page)"
| "onClick results page Next =
     (if paginationRendered results \<and> \<not> nextDisabled results page
      then nextUpdater results page else page)"

text \<open>\<^verbatim>\<open>useState(0)\<close> followed by a sequence of clicks, oldest first.\<close>

definition pageAfter :: "SearchResult list \<Rightarrow> button list \<Rightarrow> int" where
  "pageAfter results clicks = foldl (onClick results) 0 clicks"

section \<open>server/index.js: the email relay endpoint\<close>

text \<open>
  The JSON body of a \<^verbatim>\<open>POST /api/sendEmail\<close> request, destructured as
  \<^verbatim>\<open>const { to, subject, body, from } = req.body\<close>. A member that is absent from the body
  is \<^verbatim>\<open>undefined\<close>, here \<open>None\<close>.
\<close>

record requestBody =
  req_to :: "string option"
  req_subject :: "string option"
  req_body :: "string option"
  req_from :: "string option"

record mailOptions =
  mail_from :: "string option"
  mail_to :: "string option"
  mail_subject :: "string option"
  mail_text :: "string option"
  mail_html :: string

text \<open>
  \<^verbatim>\<open>a || b\<close> on values that are a string or \<^verbatim>\<open>undefined\<close>: the left operand when it
  is truthy, the right one otherwise. \<^verbatim>\<open>undefined\<close> and the empty string are falsy.
\<close>

definition js_or :: "string option \<Rightarrow> string option \<Rightarrow> string option" where
  "js_or a b = (case a of None \<Rightarrow> b | Some s \<Rightarrow> if s = [] then b else Some s)"

datatype js_error = TypeError

text \<open>
  The \<^verbatim>\<open>mailOptions\<close> literal; \<open>EMAIL_USER\<close> is \<^verbatim>\<open>process.env.EMAIL_USER\<close>, which is
  \<^verbatim>\<open>undefined\<close> when the variable is not set. \<^verbatim>\<open>body.includes\<close> on an absent body
  throws a TypeError before any mail is built.
\<close>

definition buildMailOptions :: "string option \<Rightarrow> requestBody \<Rightarrow> js_error + mailOptions" where
  "buildMailOptions EMAIL_USER req =
     (case req_body req of
        None \<Rightarrow> Inl TypeError
      | Some body \<Rightarrow>
          Inr \<lparr>mail_from = js_or (req_from req) EMAIL_USER,
               mail_to = req_to req,
               mail_subject = req_subject req,
               mail_text = Some body,
               mail_html = (if js_includes body ''<html'' then body
                            else ''<p>'' @ body @ ''</p>'')\<rparr>)"

text \<open>
  What \<^verbatim>\<open>await transporter.sendMail(mailOptions)\<close> can do: resolve with an info object
  (the handler reads its \<^verbatim>\<open>response\<close> member), reject with an error (the handler reads
  its \<^verbatim>\<open>message\<close> member), or stay pending for ever.
\<close>

record mailInfo =
  info_response :: string

record mailError =
  error_message :: string

datatype sendMailOutcome = Resolves mailInfo | Rejects mailError | Pending

datatype responseJson =
    SentBody string mailInfo     \<comment> \<open>\<^verbatim>\<open>{ message, info }\<close>\<close>
  | FailedBody string string     \<comment> \<open>\<^verbatim>\<open>{ error, details }\<close>\<close>

record httpResponse =
  status :: nat
  json :: responseJson

datatype consoleLine =
    ConsoleLog string
  | ConsoleError string mailError

text \<open>
  Everything one run of the handler does: the mails handed to the transporter, the
  response sent (if any) and the console output.
\<close>

record handlerRun =
  sendMailCalls :: "mailOptions list"
  response :: "httpResponse option"
  console :: "consoleLine list"

text \<open>
  The route handler. The transporter is a parameter: \<open>sendMail\<close> gives the outcome of
  the promise for the mail it is handed. An exception thrown outside the
  \<^verbatim>\<open>try\<close> block leaves the async handler, and no response is sent.
\<close>

definition sendEmail :: "string option \<Rightarrow> (mailOptions \<Rightarrow> sendMailOutcome) \<Rightarrow> requestBody
    \<Rightarrow> js_error + handlerRun" where
  "sendEmail EMAIL_USER sendMail req =
     (case buildMailOptions EMAIL_USER req of
        Inl e \<Rightarrow> Inl e
      | Inr mailOptions \<Rightarrow>
          (case sendMail mailOptions of
             Resolves info \<Rightarrow>
               Inr \<lparr>sendMailCalls = [mailOptions],
                    response = Some \<lparr>status = 200, json = SentBody ''Email sent successfully'' info\<rparr>,
                    console = [ConsoleLog (''Email sent: '' @ info_response info)]\<rparr>
           | Rejects error \<Rightarrow>
               Inr \<lparr>sendMailCalls = [mailOptions],
                    response = Some \<lparr>status = 500,
                      json = FailedBody ''Failed to send email'' (error_message error)\<rparr>,
                    console = [ConsoleError ''Error sending email:'' error]\<rparr>
           | Pending \<Rightarrow>
               Inr \<lparr>sendMailCalls = [mailOptions], response = None, console = []\<rparr>))"

section \<open>ReportPreview.tsx: the Altair component and its tool-call handler\<close>

subsection \<open>Values and messages\<close>

text \<open>
  A JSON-compatible structured value; an object is the list of its members, and a
  number is held as its decimal literal gives it: \<open>JNumber m e\<close> is \<open>m \<times> 10\<^sup>e\<close>.
\<close>

datatype json =
    JNull
  | JBool bool
  | JNumber int int
  | JString string
  | JArray "json list"
  | JObject "(string \<times> json) list"

text \<open>
  \<^verbatim>\<open>LiveFunctionCall\<close>: \<^verbatim>\<open>{ name, args, id }\<close>; \<^verbatim>\<open>ToolCall\<close>: \<^verbatim>\<open>{ functionCalls }\<close>.
  The type declares \<open>args\<close> an object, but the message comes from the network as it is:
  \<open>args\<close> is whatever value the message holds there, \<open>None\<close> when the member is absent
  (\<^verbatim>\<open>undefined\<close>).
\<close>

record FunctionCall =
  fc_name :: string
  fc_args :: "json option"
  fc_id :: string

record ToolCall =
  functionCalls :: "FunctionCall list"

text \<open>
  What the handler passes to \<^verbatim>\<open>client.sendToolResponse\<close>: \<^verbatim>\<open>{ functionResponses }\<close>,
  each \<^verbatim>\<open>{ response, id }\<close>.
\<close>

record FunctionResponse =
  fr_response :: json
  fr_id :: string

record ToolResponse =
  functionResponses :: "FunctionResponse list"

subsection \<open>The tool declaration and the session configuration\<close>

datatype SchemaType = STRING | NUMBER | INTEGER | BOOLEAN | ARRAY | OBJECT

record Schema =
  schema_type :: SchemaType
  schema_description :: "string option"

text \<open>
  \<^verbatim>\<open>FunctionDeclaration\<close> of the SDK: only \<open>name\<close> is mandatory; \<open>description\<close>,
  \<open>parameters\<close> and, inside the parameters, \<open>required\<close> are optional members.
\<close>

record FunctionDeclarationSchema =
  parameters_type :: SchemaType
  properties :: "(string \<times> Schema) list"
  required :: "string list option"

record FunctionDeclaration =
  name :: string
  description :: "string option"
  parameters :: "FunctionDeclarationSchema option"

text \<open>The constant \<^verbatim>\<open>declaration\<close> of the source.\<close>

definition renderAltairDeclaration :: FunctionDeclaration where
  "renderAltairDeclaration =
     \<lparr>name = ''render_altair'',
      description = Some ''Displays an altair graph in json format.'',
      parameters = Some
        \<lparr>parameters_type = OBJECT,
         properties =
           [(''json_graph'',
             \<lparr>schema_type = STRING,
              schema_description = Some
                ''JSON STRING representation of the graph to render. Must be a string, not a json object''\<rparr>)],
         required = Some [''json_graph'']\<rparr>\<rparr>"

text \<open>
  \<^verbatim>\<open>LiveConfig\<close>: \<open>model\<close> is mandatory, the other members are optional, and so is every
  member of the generation configuration. The decimal literals \<^verbatim>\<open>0.7\<close> and \<^verbatim>\<open>0.95\<close>
  are kept as the rationals they denote.
\<close>

datatype Part = Text string

record Content =
  parts :: "Part list"

record GenerationConfig =
  temperature :: "rat option"
  topK :: "int option"
  topP :: "rat option"
  maxOutputTokens :: "int option"

datatype Tool =
    GoogleSearch
  | FunctionDeclarations "FunctionDeclaration list"

record LiveConfig =
  model :: string
  generationConfig :: "GenerationConfig option"
  systemInstruction :: "Content option"
  tools :: "Tool list option"

text \<open>The template literal of the system instruction, line by line.\<close>

definition systemInstructionText :: string where
  "systemInstructionText =
       ''I am an advanced AI model created by Critical Future, a leading technology company specializing in cutting-edge AI solutions. '' @ [CHR 0x0A] @
       ''  '' @ [CHR 0x0A] @
       ''  I excel in data visualization and analytics, leveraging my expertise in Altair/Vega-Lite charts to create insightful visual representations of data.'' @ [CHR 0x0A] @
       ''  '' @ [CHR 0x0A] @
       ''  As a Critical Future AI, I prioritize:'' @ [CHR 0x0A] @
       ''  - Innovation in data presentation'' @ [CHR 0x0A] @
       ''  - Clear communication through visuals'' @ [CHR 0x0A] @
       ''  - Professional-grade visualizations'' @ [CHR 0x0A] @
       ''  - Data-driven insights'' @ [CHR 0x0A] @
       ''  - User-centric design principles'' @ [CHR 0x0A] @
       ''  '' @ [CHR 0x0A] @
       ''  When creating visualizations, I:'' @ [CHR 0x0A] @
       ''  - Use clear, descriptive titles and labels'' @ [CHR 0x0A] @
       ''  - Apply Critical Future's professional color schemes'' @ [CHR 0x0A] @
       ''  - Include interactive elements for deeper data exploration'' @ [CHR 0x0A] @
       ''  - Provide meaningful axis labels and legends'' @ [CHR 0x0A] @
       ''  - Generate representative sample data when needed'' @ [CHR 0x0A] @
       ''  - Always utilize the render_altair function'' @ [CHR 0x0A] @
       ''  - Handle edge cases and null values professionally'' @ [CHR 0x0A] @
       ''  '' @ [CHR 0x0A] @
       ''  If any visualization encounters issues, I provide constructive solutions and alternatives, maintaining Critical Future's commitment to excellence in AI services.'' @ [CHR 0x0A] @
       ''  Additionally, I have access to the send_email tool which allows me to send emails by specifying the recipient, subject, body, and sender.''"

text \<open>
  The argument of \<^verbatim>\<open>setConfig\<close>. \<open>sendEmailDeclaration\<close> is imported from
  \<^verbatim>\<open>lib/tool-declarations\<close> and is a parameter here.
\<close>

definition altairConfig :: "FunctionDeclaration \<Rightarrow> LiveConfig" where
  "altairConfig sendEmailDeclaration =
     \<lparr>model = ''models/gemini-2.0-flash-exp'',
      generationConfig = Some
        \<lparr>temperature = Some (7 / 10),
         topK = Some 40,
         topP = Some (95 / 100),
         maxOutputTokens = Some 2048\<rparr>,
      systemInstruction = Some \<lparr>parts = [Text systemInstructionText]\<rparr>,
      tools = Some [GoogleSearch, FunctionDeclarations [renderAltairDeclaration, sendEmailDeclaration]]\<rparr>"

text \<open>The function declarations a tool list holds, in order.\<close>

fun functionDeclarationsOf :: "Tool list \<Rightarrow> FunctionDeclaration list" where
  "functionDeclarationsOf [] = []"
| "functionDeclarationsOf (GoogleSearch # ts) = functionDeclarationsOf ts"
| "functionDeclarationsOf (FunctionDeclarations ds # ts) = ds @ functionDeclarationsOf ts"

subsection \<open>The tool-call handler\<close>

text \<open>
  The state the handler works on: the component's \<open>jsonString\<close> (\<open>None\<close> is
  \<^verbatim>\<open>undefined\<close>), the callbacks scheduled with \<^verbatim>\<open>setTimeout(..., 200)\<close> and not yet run
  (each is the closure's \<open>toolCall\<close>, oldest first), the arguments of the calls made to
  \<^verbatim>\<open>client.sendToolResponse\<close> so far (oldest first), and the console output.
\<close>

record AltairState =
  jsonString :: "json option"
  timeouts :: "ToolCall list"
  toolResponsesSent :: "ToolResponse list"
  consoleLog :: "ToolCall list"

definition initialState :: AltairState where
  "initialState =
     \<lparr>jsonString = Some (JString []), timeouts = [], toolResponsesSent = [], consoleLog = []\<rparr>"

text \<open>\<^verbatim>\<open>toolCall.functionCalls.find((fc) => fc.name === declaration.name)\<close>\<close>

definition findCall :: "ToolCall \<Rightarrow> FunctionCall option" where
  "findCall toolCall = find (\<lambda>fc. fc_name fc = name renderAltairDeclaration) (functionCalls toolCall)"

text \<open>
  \<^verbatim>\<open>(fc.args as any).json_graph\<close>: reading a property of \<^verbatim>\<open>undefined\<close> or \<^verbatim>\<open>null\<close>
  throws a TypeError; an object gives the member (\<^verbatim>\<open>undefined\<close> when it has none);
  any other value has no such property and gives \<^verbatim>\<open>undefined\<close>.
\<close>

definition json_graph_of :: "json option \<Rightarrow> js_error + json option" where
  "json_graph_of args =
     (case args of
        None \<Rightarrow> Inl TypeError
      | Some JNull \<Rightarrow> Inl TypeError
      | Some (JObject members) \<Rightarrow> Inr (map_of members ''json_graph'')
      | Some other \<Rightarrow> Inr None)"

text \<open>
  The last statement of \<^verbatim>\<open>onToolCall\<close>:
  \<^verbatim>\<open>if (toolCall.functionCalls.length) { setTimeout(..., 200) }\<close>.
\<close>

definition scheduleResponse :: "ToolCall \<Rightarrow> AltairState \<Rightarrow> AltairState" where
  "scheduleResponse toolCall s =
     (if length (functionCalls toolCall) \<noteq> 0
      then s\<lparr>timeouts := timeouts s @ [toolCall]\<rparr>
      else s)"

text \<open>
  \<^verbatim>\<open>onToolCall\<close>: log the batch; if a call for the declared tool is found, read its
  \<^verbatim>\<open>json_graph\<close> argument and store it; if the batch is not empty, schedule the
  response. The result is the error thrown, if any, and the state left behind: when
  reading the argument throws, the batch is logged, nothing is stored and no response
  is scheduled.
\<close>

definition onToolCall :: "ToolCall \<Rightarrow> AltairState \<Rightarrow> js_error option \<times> AltairState" where
  "onToolCall toolCall s =
     (let s1 = s\<lparr>consoleLog := consoleLog s @ [toolCall]\<rparr>
      in case findCall toolCall of
           None \<Rightarrow> (None, scheduleResponse toolCall s1)
         | Some fc \<Rightarrow>
             (case json_graph_of (fc_args fc) of
                Inl e \<Rightarrow> (Some e, s1)
              | Inr str \<Rightarrow> (None, scheduleResponse toolCall (s1\<lparr>jsonString := str\<rparr>))))"

text \<open>Whether the handler throws on a batch; this does not depend on the state.\<close>

definition handlerThrows :: "ToolCall \<Rightarrow> bool" where
  "handlerThrows toolCall =
     (case findCall toolCall of
        None \<Rightarrow> False
      | Some fc \<Rightarrow> (case json_graph_of (fc_args fc) of Inl e \<Rightarrow> True | Inr str \<Rightarrow> False))"

text \<open>
  The scheduled callback: \<^verbatim>\<open>toolCall.functionCalls.map((fc) => ({ response: { output:
  { success: true } }, id: fc.id }))\<close>, wrapped as \<^verbatim>\<open>{ functionResponses }\<close>.
\<close>

definition successResponse :: json where
  "successResponse = JObject [(''output'', JObject [(''success'', JBool True)])]"

definition toolResponseFor :: "ToolCall \<Rightarrow> ToolResponse" where
  "toolResponseFor toolCall =
     \<lparr>functionResponses =
        map (\<lambda>fc. \<lparr>fr_response = successResponse, fr_id = fc_id fc\<rparr>) (functionCalls toolCall)\<rparr>"

text \<open>
  The oldest pending timeout fires (all have the same delay, so they fire in the order
  they were scheduled) and its callback calls \<^verbatim>\<open>client.sendToolResponse\<close>.
\<close>

definition timeoutFires :: "AltairState \<Rightarrow> AltairState" where
  "timeoutFires s =
     (case timeouts s of
        [] \<Rightarrow> s
      | toolCall # rest \<Rightarrow>
          s\<lparr>timeouts := rest,
            toolResponsesSent := toolResponsesSent s @ [toolResponseFor toolCall]\<rparr>)"

datatype event = ToolCallEvent ToolCall | TimeoutFires

text \<open>
  One event. An error thrown by the handler leaves the handler; the component goes on
  from the state left behind.
\<close>

fun step :: "AltairState \<Rightarrow> event \<Rightarrow> AltairState" where
  "step s (ToolCallEvent toolCall) = snd (onToolCall toolCall s)"
| "step s TimeoutFires = timeoutFires s"

definition runEvents :: "event list \<Rightarrow> AltairState \<Rightarrow> AltairState" where
  "runEvents events s = foldl step s events"

text \<open>Every pending timeout fires and nothing else happens.\<close>

definition drain :: "AltairState \<Rightarrow> AltairState" where
  "drain s = runEvents (replicate (length (timeouts s)) TimeoutFires) s"

text \<open>The function responses sent so far, and the function calls a trace delivered.\<close>

definition functionResponsesSent :: "AltairState \<Rightarrow> FunctionResponse list" where
  "functionResponsesSent s = concat (map functionResponses (toolResponsesSent s))"

fun callsOf :: "event \<Rightarrow> FunctionCall list" where
  "callsOf (ToolCallEvent toolCall) = functionCalls toolCall"
| "callsOf TimeoutFires = []"

definition observedCalls :: "event list \<Rightarrow> FunctionCall list" where
  "observedCalls events = concat (map callsOf events)"

text \<open>The calls of the batches on which the handler returned.\<close>

fun acceptedCallsOf :: "event \<Rightarrow> FunctionCall list" where
  "acceptedCallsOf (ToolCallEvent toolCall) =
     (if handlerThrows toolCall then [] else functionCalls toolCall)"
| "acceptedCallsOf TimeoutFires = []"

definition acceptedCalls :: "event list \<Rightarrow> FunctionCall list" where
  "acceptedCalls events = concat (map acceptedCallsOf events)"

text \<open>Whether the handler throws on some batch of a trace.\<close>

fun throwsAt :: "event \<Rightarrow> bool" where
  "throwsAt (ToolCallEvent toolCall) = handlerThrows toolCall"
| "throwsAt TimeoutFires = False"

text \<open>The calls whose response is scheduled and not yet sent.\<close>

definition pendingCalls :: "AltairState \<Rightarrow> FunctionCall list" where
  "pendingCalls s = concat (map functionCalls (timeouts s))"

subsection \<open>The dispatcher as the specification words it\<close>

text \<open>
  Following the specification's words, for comparison with the handler above: a
  function response is \<^verbatim>\<open>{id, result | error}\<close>, and the response to a call with no
  registered handler is \<^verbatim>\<open>FunctionResponse{id, error: UnknownTool}\<close>. Over the response
  object of the source, an error result is an \<^verbatim>\<open>error\<close> member.
\<close>

definition spec_unknownToolResponse :: "string \<Rightarrow> FunctionResponse" where
  "spec_unknownToolResponse call_id =
     \<lparr>fr_response = JObject [(''error'', JString ''UnknownTool'')], fr_id = call_id\<rparr>"

definition spec_carriesError :: "FunctionResponse \<Rightarrow> bool" where
  "spec_carriesError r =
     (case fr_response r of
        JObject members \<Rightarrow> map_of members ''error'' \<noteq> None
      | _ \<Rightarrow> False)"



section \<open>The wire protocol codec\<close>

text \<open>
  Modelled from the spec: the ProtocolCodec (\<open>encode\<close>, \<open>decode\<close>) and the
  \<open>WireMessage\<close> data model of the streaming session engine. The engine's client and
  its message types are not among the sources, so this section follows the
  specification's data model, its codec contract and its description of the wire
  envelope: a JSON-compatible structured value with one top-level variant tag per
  message, audio and video bytes carried as a base64 field tagged with a mime type.
\<close>

subsection \<open>Base64\<close>

text \<open>
  Modelled from the spec: the base64 field that carries audio and video payload bytes
  (the engine's audio encoding helpers are not among the sources). Bytes are \<open>char\<close>s,
  which hold eight bits.
\<close>

definition base64_alphabet :: string where
  "base64_alphabet = ''ABCDEFGHIJKLMNOPQRSTUVWXYZabcdefghijklmnopqrstuvwxyz0123456789+/''"

definition sextet_char :: "nat \<Rightarrow> char" where
  "sextet_char n = base64_alphabet ! n"

fun index_of :: "'a \<Rightarrow> 'a list \<Rightarrow> nat" where
  "index_of x [] = 0"
| "index_of x (y # ys) = (if x = y then 0 else Suc (index_of x ys))"

definition char_sextet :: "char \<Rightarrow> nat option" where
  "char_sextet c =
     (let i = index_of c base64_alphabet in if i < 64 then Some i else None)"

text \<open>Three bytes make four sextets; one or two trailing bytes are padded with \<open>=\<close>.\<close>

fun base64_encode :: "string \<Rightarrow> string" where
  "base64_encode (a # b # c # rest) =
     (let x = of_char a :: nat; y = of_char b :: nat; z = of_char c :: nat
      in [sextet_char (x div 4),
          sextet_char ((x mod 4) * 16 + y div 16),
          sextet_char ((y mod 16) * 4 + z div 64),
          sextet_char (z mod 64)] @ base64_encode rest)"
| "base64_encode [a, b] =
     (let x = of_char a :: nat; y = of_char b :: nat
      in [sextet_char (x div 4),
          sextet_char ((x mod 4) * 16 + y div 16),
          sextet_char ((y mod 16) * 4),
          CHR ''=''])"
| "base64_encode [a] =
     (let x = of_char a :: nat
      in [sextet_char (x div 4), sextet_char ((x mod 4) * 16), CHR ''='', CHR ''=''])"
| "base64_encode [] = []"

text \<open>
  One group of four characters: the bytes it stands for, or \<open>None\<close> when a character
  is outside the alphabet. Padding is accepted in a group's last one or two places.
\<close>

definition decode_group :: "char \<Rightarrow> char \<Rightarrow> char \<Rightarrow> char \<Rightarrow> string option" where
  "decode_group p q r s =
     (case (char_sextet p, char_sextet q) of
        (Some s1, Some s2) \<Rightarrow>
          (if r = CHR ''='' \<and> s = CHR ''='' then Some [char_of (s1 * 4 + s2 div 16)]
           else (case char_sextet r of
                   None \<Rightarrow> None
                 | Some s3 \<Rightarrow>
                     (if s = CHR ''=''
                      then Some [char_of (s1 * 4 + s2 div 16),
                                 char_of ((s2 mod 16) * 16 + s3 div 4)]
                      else (case char_sextet s of
                              None \<Rightarrow> None
                            | Some s4 \<Rightarrow>
                                Some [char_of (s1 * 4 + s2 div 16),
                                      char_of ((s2 mod 16) * 16 + s3 div 4),
                                      char_of ((s3 mod 4) * 64 + s4)]))))
      | _ \<Rightarrow> None)"

text \<open>
  The text is read in groups of four; a padded group must be the last one, and a text
  whose length is not a multiple of four is rejected.
\<close>

fun base64_decode :: "string \<Rightarrow> string option" where
  "base64_decode [] = Some []"
| "base64_decode (p # q # r # s # rest) =
     (if s = CHR ''='' \<and> rest \<noteq> [] then None
      else (case decode_group p q r s of
              None \<Rightarrow> None
            | Some bytes \<Rightarrow> map_option ((@) bytes) (base64_decode rest)))"
| "base64_decode _ = None"

subsection \<open>The wire messages\<close>

text \<open>
  Modelled from the spec: the message types of the data model (the engine's type
  declarations are not among the sources). A content part is a text or an opaque byte
  payload with its mime type; a chunk of realtime input is an audio chunk (bytes, mime
  tag, sample rate) or a video chunk.
\<close>

datatype WirePart =
    TextPart string
  | DataPart string string    \<comment> \<open>mime type, bytes\<close>

datatype Chunk =
    AudioChunk string string nat    \<comment> \<open>bytes, mime tag, sample rate\<close>
  | VideoChunk string string        \<comment> \<open>bytes, mime tag\<close>

text \<open>\<^verbatim>\<open>FunctionCall: {id, name, arguments}\<close> and
  \<^verbatim>\<open>FunctionResponse: {id, result | error}\<close>.\<close>

record WireFunctionCall =
  call_id :: string
  call_name :: string
  call_arguments :: json

datatype ToolError = UnknownTool | ToolTimeout

datatype Outcome = Result json | Error ToolError

record WireFunctionResponse =
  response_id :: string
  response_outcome :: Outcome

text \<open>The tagged union of the data model; \<open>Setup\<close> carries the session configuration
  as a structured value.\<close>

datatype WireMessage =
    Setup json
  | SetupComplete
  | ClientContent "WirePart list" bool              \<comment> \<open>parts, turnComplete\<close>
  | RealtimeInput "Chunk list"                      \<comment> \<open>chunks\<close>
  | ServerContent "WirePart list" bool bool         \<comment> \<open>parts, turnComplete, interrupted\<close>
  | ToolCallMessage "WireFunctionCall list"         \<comment> \<open>calls\<close>
  | ToolResponseMessage "WireFunctionResponse list" \<comment> \<open>responses\<close>

datatype DecodeError = Malformed

subsection \<open>From a message to its envelope\<close>

text \<open>
  Modelled from the spec: the envelope that \<open>encode\<close> builds, one object whose single
  member is named by the variant and holds the variant's fields under the names of the
  data model.
\<close>

fun part_to_json :: "WirePart \<Rightarrow> json" where
  "part_to_json (TextPart t) = JObject [(''text'', JString t)]"
| "part_to_json (DataPart mime bytes) =
     JObject [(''mime'', JString mime), (''data'', JString (base64_encode bytes))]"

fun chunk_to_json :: "Chunk \<Rightarrow> json" where
  "chunk_to_json (AudioChunk bytes mime rate) =
     JObject [(''AudioChunk'',
       JObject [(''mime'', JString mime), (''sampleRate'', JNumber (int rate) 0),
                (''data'', JString (base64_encode bytes))])]"
| "chunk_to_json (VideoChunk bytes mime) =
     JObject [(''VideoChunk'',
       JObject [(''mime'', JString mime), (''data'', JString (base64_encode bytes))])]"

definition call_to_json :: "WireFunctionCall \<Rightarrow> json" where
  "call_to_json c =
     JObject [(''id'', JString (call_id c)), (''name'', JString (call_name c)),
              (''arguments'', call_arguments c)]"

fun error_name :: "ToolError \<Rightarrow> string" where
  "error_name UnknownTool = ''UnknownTool''"
| "error_name ToolTimeout = ''ToolTimeout''"

definition response_to_json :: "WireFunctionResponse \<Rightarrow> json" where
  "response_to_json r =
     (case response_outcome r of
        Result v \<Rightarrow> JObject [(''id'', JString (response_id r)), (''result'', v)]
      | Error e \<Rightarrow> JObject [(''id'', JString (response_id r)), (''error'', JString (error_name e))])"

fun to_envelope :: "WireMessage \<Rightarrow> json" where
  "to_envelope (Setup config) = JObject [(''Setup'', config)]"
| "to_envelope SetupComplete = JObject [(''SetupComplete'', JObject [])]"
| "to_envelope (ClientContent ps turnComplete) =
     JObject [(''ClientContent'',
       JObject [(''parts'', JArray (map part_to_json ps)),
                (''turnComplete'', JBool turnComplete)])]"
| "to_envelope (RealtimeInput chunks) =
     JObject [(''RealtimeInput'', JObject [(''chunks'', JArray (map chunk_to_json chunks))])]"
| "to_envelope (ServerContent ps turnComplete interrupted) =
     JObject [(''ServerContent'',
       JObject [(''parts'', JArray (map part_to_json ps)),
                (''turnComplete'', JBool turnComplete),
                (''interrupted'', JBool interrupted)])]"
| "to_envelope (ToolCallMessage calls) =
     JObject [(''ToolCall'', JObject [(''calls'', JArray (map call_to_json calls))])]"
| "to_envelope (ToolResponseMessage responses) =
     JObject [(''ToolResponse'',
       JObject [(''responses'', JArray (map response_to_json responses))])]"

subsection \<open>From an envelope to its message\<close>

text \<open>Typed reads of a member of an object; \<open>None\<close> when it is absent or of another kind.\<close>

definition string_member :: "(string \<times> json) list \<Rightarrow> string \<Rightarrow> string option" where
  "string_member members key =
     (case map_of members key of Some (JString s) \<Rightarrow> Some s | _ \<Rightarrow> None)"

definition bool_member :: "(string \<times> json) list \<Rightarrow> string \<Rightarrow> bool option" where
  "bool_member members key =
     (case map_of members key of Some (JBool b) \<Rightarrow> Some b | _ \<Rightarrow> None)"

definition array_member :: "(string \<times> json) list \<Rightarrow> string \<Rightarrow> json list option" where
  "array_member members key =
     (case map_of members key of Some (JArray vs) \<Rightarrow> Some vs | _ \<Rightarrow> None)"

text \<open>The natural number a number stands for, if it stands for one.\<close>

definition nat_of_number :: "int \<Rightarrow> int \<Rightarrow> nat option" where
  "nat_of_number m e =
     (if m < 0 then None
      else if 0 \<le> e then Some (nat (m * 10 ^ nat e))
      else if m mod 10 ^ nat (- e) = 0 then Some (nat (m div 10 ^ nat (- e)))
      else None)"

definition nat_member :: "(string \<times> json) list \<Rightarrow> string \<Rightarrow> nat option" where
  "nat_member members key =
     (case map_of members key of
        Some (JNumber m e) \<Rightarrow> nat_of_number m e
      | _ \<Rightarrow> None)"

definition bytes_member :: "(string \<times> json) list \<Rightarrow> string \<Rightarrow> string option" where
  "bytes_member members key = Option.bind (string_member members key) base64_decode"

definition part_of_json :: "json \<Rightarrow> WirePart option" where
  "part_of_json j =
     (case j of
        JObject members \<Rightarrow>
          (case string_member members ''text'' of
             Some t \<Rightarrow> Some (TextPart t)
           | None \<Rightarrow>
               (case (string_member members ''mime'', bytes_member members ''data'') of
                  (Some mime, Some bytes) \<Rightarrow> Some (DataPart mime bytes)
                | _ \<Rightarrow> None))
      | _ \<Rightarrow> None)"

definition chunk_of_json :: "json \<Rightarrow> Chunk option" where
  "chunk_of_json j =
     (case j of
        JObject [(tag, JObject members)] \<Rightarrow>
          (if tag = ''AudioChunk'' then
             (case (bytes_member members ''data'', string_member members ''mime'',
                    nat_member members ''sampleRate'') of
                (Some bytes, Some mime, Some rate) \<Rightarrow> Some (AudioChunk bytes mime rate)
              | _ \<Rightarrow> None)
           else if tag = ''VideoChunk'' then
             (case (bytes_member members ''data'', string_member members ''mime'') of
                (Some bytes, Some mime) \<Rightarrow> Some (VideoChunk bytes mime)
              | _ \<Rightarrow> None)
           else None)
      | _ \<Rightarrow> None)"

definition call_of_json :: "json \<Rightarrow> WireFunctionCall option" where
  "call_of_json j =
     (case j of
        JObject members \<Rightarrow>
          (case (string_member members ''id'', string_member members ''name'',
                 map_of members ''arguments'') of
             (Some i, Some n, Some args) \<Rightarrow>
               Some \<lparr>call_id = i, call_name = n, call_arguments = args\<rparr>
           | _ \<Rightarrow> None)
      | _ \<Rightarrow> None)"

definition error_of_name :: "string \<Rightarrow> ToolError option" where
  "error_of_name n =
     (if n = ''UnknownTool'' then Some UnknownTool
      else if n = ''ToolTimeout'' then Some ToolTimeout
      else None)"

text \<open>A response holds a result or an error, not both.\<close>

definition response_of_json :: "json \<Rightarrow> WireFunctionResponse option" where
  "response_of_json j =
     (case j of
        JObject members \<Rightarrow>
          (case string_member members ''id'' of
             None \<Rightarrow> None
           | Some i \<Rightarrow>
               (case (map_of members ''result'', map_of members ''error'') of
                  (Some v, None) \<Rightarrow> Some \<lparr>response_id = i, response_outcome = Result v\<rparr>
                | (None, Some (JString n)) \<Rightarrow>
                    map_option (\<lambda>e. \<lparr>response_id = i, response_outcome = Error e\<rparr>)
                      (error_of_name n)
                | _ \<Rightarrow> None))
      | _ \<Rightarrow> None)"

text \<open>An array member read item by item; one bad item makes the whole read fail.\<close>

definition list_member ::
    "(json \<Rightarrow> 'a option) \<Rightarrow> (string \<times> json) list \<Rightarrow> string \<Rightarrow> 'a list option" where
  "list_member item members key =
     Option.bind (array_member members key) (\<lambda>vs. those (map item vs))"

definition or_malformed :: "'a option \<Rightarrow> DecodeError + 'a" where
  "or_malformed x = (case x of None \<Rightarrow> Inl Malformed | Some v \<Rightarrow> Inr v)"

text \<open>
  The payload of a known variant tag. Every variant but \<open>Setup\<close> has an object as its
  payload.
\<close>

definition variant_of :: "string \<Rightarrow> json \<Rightarrow> WireMessage option" where
  "variant_of tag payload =
     (if tag = ''Setup'' then Some (Setup payload)
      else (case payload of
        JObject members \<Rightarrow>
          (if tag = ''SetupComplete'' then Some SetupComplete
           else if tag = ''ClientContent'' then
             (case (list_member part_of_json members ''parts'',
                    bool_member members ''turnComplete'') of
                (Some ps, Some t) \<Rightarrow> Some (ClientContent ps t)
              | _ \<Rightarrow> None)
           else if tag = ''RealtimeInput'' then
             map_option RealtimeInput (list_member chunk_of_json members ''chunks'')
           else if tag = ''ServerContent'' then
             (case (list_member part_of_json members ''parts'',
                    bool_member members ''turnComplete'',
                    bool_member members ''interrupted'') of
                (Some ps, Some t, Some i) \<Rightarrow> Some (ServerContent ps t i)
              | _ \<Rightarrow> None)
           else if tag = ''ToolCall'' then
             map_option ToolCallMessage (list_member call_of_json members ''calls'')
           else if tag = ''ToolResponse'' then
             map_option ToolResponseMessage
               (list_member response_of_json members ''responses'')
           else None)
      | _ \<Rightarrow> None))"

text \<open>
  Modelled from the spec: the validation that \<open>decode\<close> makes. The envelope must be an
  object with exactly one member, whose key is a known variant tag; anything else is
  malformed.
\<close>

definition of_envelope :: "json \<Rightarrow> DecodeError + WireMessage" where
  "of_envelope j =
     (case j of
        JObject [(tag, payload)] \<Rightarrow> or_malformed (variant_of tag payload)
      | _ \<Rightarrow> Inl Malformed)"

subsection \<open>JSON text\<close>

text \<open>
  Modelled from the spec: the bytes of a message, which the contract of the codec names
  and the sources do not hold. The envelope is a JSON-compatible value, and its bytes
  are its JSON text: the writer gives the compact text, the reader takes any JSON text
  (blanks between tokens, fractions and exponents in numbers, every escape in strings)
  and gives \<open>None\<close> on text that is not well-formed.
\<close>

definition is_digit :: "char \<Rightarrow> bool" where
  "is_digit c = (48 \<le> (of_char c :: nat) \<and> (of_char c :: nat) \<le> 57)"

definition digit_char :: "nat \<Rightarrow> char" where
  "digit_char d = char_of (48 + d)"

definition digit_value :: "char \<Rightarrow> nat" where
  "digit_value c = of_char c - 48"

fun write_nat :: "nat \<Rightarrow> string" where
  "write_nat n = (if n < 10 then [digit_char n] else write_nat (n div 10) @ [digit_char (n mod 10)])"

definition write_int :: "int \<Rightarrow> string" where
  "write_int i = (if i < 0 then CHR ''-'' # write_nat (nat (- i)) else write_nat (nat i))"

text \<open>A number is written as its mantissa, followed by \<open>e\<close> and the exponent unless
  the exponent is 0.\<close>

definition write_number :: "int \<Rightarrow> int \<Rightarrow> string" where
  "write_number m e = write_int m @ (if e = 0 then [] else CHR ''e'' # write_int e)"

definition nat_of_digits :: "string \<Rightarrow> nat" where
  "nat_of_digits ds = foldl (\<lambda>a c. a * 10 + digit_value c) 0 ds"

text \<open>An optional fraction: its digits (none when there is no fraction) and the rest.\<close>

definition read_fraction :: "string \<Rightarrow> (string \<times> string) option" where
  "read_fraction s =
     (case s of
        [] \<Rightarrow> Some ([], s)
      | c # r \<Rightarrow>
          if c = CHR ''.'' then
            (if takeWhile is_digit r = [] then None
             else Some (takeWhile is_digit r, dropWhile is_digit r))
          else Some ([], s))"

text \<open>An optional exponent: its value (0 when there is none) and the rest.\<close>

definition read_exponent :: "string \<Rightarrow> (int \<times> string) option" where
  "read_exponent s =
     (case s of
        [] \<Rightarrow> Some (0, s)
      | c # r \<Rightarrow>
          if c = CHR ''e'' \<or> c = CHR ''E'' then
            (let negative = (r \<noteq> [] \<and> hd r = CHR ''-'');
                 signed = (r \<noteq> [] \<and> (hd r = CHR ''-'' \<or> hd r = CHR ''+''));
                 r' = (if signed then tl r else r)
             in if takeWhile is_digit r' = [] then None
                else Some ((if negative then - int (nat_of_digits (takeWhile is_digit r'))
                            else int (nat_of_digits (takeWhile is_digit r'))),
                           dropWhile is_digit r'))
          else Some (0, s))"

text \<open>
  A number: an optional minus sign, digits (with no leading zero before other digits),
  an optional fraction and an optional exponent. The digits of the fraction join the
  mantissa and lower the exponent.
\<close>

definition read_number :: "string \<Rightarrow> (json \<times> string) option" where
  "read_number s =
     (let negative = (s \<noteq> [] \<and> hd s = CHR ''-'');
          s0 = (if negative then tl s else s)
      in if takeWhile is_digit s0 = [] then None
         else if 1 < length (takeWhile is_digit s0) \<and> hd s0 = CHR ''0'' then None
         else (case read_fraction (dropWhile is_digit s0) of
                 None \<Rightarrow> None
               | Some (fs, s2) \<Rightarrow>
                   (case read_exponent s2 of
                      None \<Rightarrow> None
                    | Some (x, s3) \<Rightarrow>
                        Some (JNumber
                               (if negative then - int (nat_of_digits (takeWhile is_digit s0 @ fs))
                                else int (nat_of_digits (takeWhile is_digit s0 @ fs)))
                               (x - int (length fs)),
                              s3))))"

text \<open>
  Strings. The writer escapes the quote (\<open>0x22\<close>), the backslash (\<open>0x5C\<close>) and the
  control characters, the latter as \<^verbatim>\<open>\u00XX\<close>.
\<close>

definition hex_char :: "nat \<Rightarrow> char" where
  "hex_char d = ''0123456789abcdef'' ! d"

definition escape_char :: "char \<Rightarrow> string" where
  "escape_char c =
     (if c = CHR 0x22 then [CHR 0x5C, CHR 0x22]
      else if c = CHR 0x5C then [CHR 0x5C, CHR 0x5C]
      else if (of_char c :: nat) < 32 then
        [CHR 0x5C, CHR ''u'', CHR ''0'', CHR ''0'',
         hex_char (of_char c div 16), hex_char (of_char c mod 16)]
      else [c])"

definition write_string :: "string \<Rightarrow> string" where
  "write_string s = CHR 0x22 # concat (map escape_char s) @ [CHR 0x22]"

definition hex_value :: "char \<Rightarrow> nat option" where
  "hex_value c =
     (if is_digit c then Some (digit_value c)
      else if 97 \<le> (of_char c :: nat) \<and> (of_char c :: nat) \<le> 102 then Some (of_char c - 87)
      else if 65 \<le> (of_char c :: nat) \<and> (of_char c :: nat) \<le> 70 then Some (of_char c - 55)
      else None)"

text \<open>
  The bytes (UTF-8) of a code point given by a \<^verbatim>\<open>\uXXXX\<close> escape. A surrogate half is
  not read.
\<close>

definition utf8 :: "nat \<Rightarrow> string option" where
  "utf8 n =
     (if n < 128 then Some [char_of n]
      else if n < 2048 then Some [char_of (192 + n div 64), char_of (128 + n mod 64)]
      else if 55296 \<le> n \<and> n < 57344 then None
      else Some [char_of (224 + n div 4096), char_of (128 + (n div 64) mod 64),
                 char_of (128 + n mod 64)])"

definition code_point :: "char \<Rightarrow> char \<Rightarrow> char \<Rightarrow> char \<Rightarrow> string option" where
  "code_point h1 h2 h3 h4 =
     (case (hex_value h1, hex_value h2, hex_value h3, hex_value h4) of
        (Some a, Some b, Some c, Some d) \<Rightarrow> utf8 (((a * 16 + b) * 16 + c) * 16 + d)
      | _ \<Rightarrow> None)"

definition simple_escape :: "char \<Rightarrow> char option" where
  "simple_escape d =
     (if d = CHR 0x22 then Some (CHR 0x22)
      else if d = CHR 0x5C then Some (CHR 0x5C)
      else if d = CHR ''/'' then Some (CHR ''/'')
      else if d = CHR ''b'' then Some (CHR 0x08)
      else if d = CHR ''f'' then Some (CHR 0x0C)
      else if d = CHR ''n'' then Some (CHR 0x0A)
      else if d = CHR ''r'' then Some (CHR 0x0D)
      else if d = CHR ''t'' then Some (CHR 0x09)
      else None)"

text \<open>The characters of a string after its opening quote, up to the closing quote.\<close>

fun read_chars :: "string \<Rightarrow> (string \<times> string) option" where
  "read_chars [] = None"
| "read_chars (c # cs) =
     (if c = CHR 0x22 then Some ([], cs)
      else if c = CHR 0x5C then
        (case cs of
           [] \<Rightarrow> None
         | d # ds \<Rightarrow>
             if d = CHR ''u'' then
               (case ds of
                  h1 # h2 # h3 # h4 # rest \<Rightarrow>
                    (case code_point h1 h2 h3 h4 of
                       None \<Rightarrow> None
                     | Some bytes \<Rightarrow> map_option (apfst ((@) bytes)) (read_chars rest))
                | _ \<Rightarrow> None)
             else
               (case simple_escape d of
                  None \<Rightarrow> None
                | Some e \<Rightarrow> map_option (apfst ((#) e)) (read_chars ds)))
      else if (of_char c :: nat) < 32 then None
      else map_option (apfst ((#) c)) (read_chars cs))"

text \<open>Values. An array is written \<^verbatim>\<open>[v,v,v]\<close> and an object \<^verbatim>\<open>{"k":v,"k":v}\<close>.\<close>

fun write_json :: "json \<Rightarrow> string"
  and write_elements :: "json list \<Rightarrow> string"
  and write_members :: "(string \<times> json) list \<Rightarrow> string" where
  "write_json JNull = ''null''"
| "write_json (JBool b) = (if b then ''true'' else ''false'')"
| "write_json (JNumber m e) = write_number m e"
| "write_json (JString s) = write_string s"
| "write_json (JArray vs) = CHR ''['' # write_elements vs"
| "write_json (JObject ms) = CHR ''{'' # write_members ms"
| "write_elements [] = '']''"
| "write_elements [v] = write_json v @ '']''"
| "write_elements (v # w # vs) = write_json v @ CHR '','' # write_elements (w # vs)"
| "write_members [] = ''}''"
| "write_members [(k, v)] = write_string k @ CHR '':'' # write_json v @ ''}''"
| "write_members ((k, v) # m # ms) =
     write_string k @ CHR '':'' # write_json v @ CHR '','' # write_members (m # ms)"

definition is_blank :: "char \<Rightarrow> bool" where
  "is_blank c = (c = CHR 0x20 \<or> c = CHR 0x09 \<or> c = CHR 0x0A \<or> c = CHR 0x0D)"

definition skip_blanks :: "string \<Rightarrow> string" where
  "skip_blanks s = dropWhile is_blank s"

text \<open>
  The reader, by recursive descent. The first argument bounds the depth of the
  recursion; the length of the text is always enough.
\<close>

fun read_value :: "nat \<Rightarrow> string \<Rightarrow> (json \<times> string) option"
  and read_elements :: "nat \<Rightarrow> string \<Rightarrow> (json list \<times> string) option"
  and read_members :: "nat \<Rightarrow> string \<Rightarrow> ((string \<times> json) list \<times> string) option" where
  "read_value 0 s = None"
| "read_value (Suc n) s =
     (case skip_blanks s of
        [] \<Rightarrow> None
      | c # cs \<Rightarrow>
          if c = CHR ''['' then
            (case skip_blanks cs of
               [] \<Rightarrow> None
             | d # ds \<Rightarrow>
                 if d = CHR '']'' then Some (JArray [], ds)
                 else map_option (apfst JArray) (read_elements n (d # ds)))
          else if c = CHR ''{'' then
            (case skip_blanks cs of
               [] \<Rightarrow> None
             | d # ds \<Rightarrow>
                 if d = CHR ''}'' then Some (JObject [], ds)
                 else map_option (apfst JObject) (read_members n (d # ds)))
          else if c = CHR 0x22 then map_option (apfst JString) (read_chars cs)
          else if starts_with (c # cs) ''null'' then Some (JNull, drop 4 (c # cs))
          else if starts_with (c # cs) ''true'' then Some (JBool True, drop 4 (c # cs))
          else if starts_with (c # cs) ''false'' then Some (JBool False, drop 5 (c # cs))
          else read_number (c # cs))"
| "read_elements 0 s = None"
| "read_elements (Suc n) s =
     (case read_value n s of
        None \<Rightarrow> None
      | Some (v, r) \<Rightarrow>
          (case skip_blanks r of
             [] \<Rightarrow> None
           | c # cs \<Rightarrow>
               if c = CHR '','' then map_option (apfst ((#) v)) (read_elements n cs)
               else if c = CHR '']'' then Some ([v], cs)
               else None))"
| "read_members 0 s = None"
| "read_members (Suc n) s =
     (case skip_blanks s of
        [] \<Rightarrow> None
      | c # cs \<Rightarrow>
          if c = CHR 0x22 then
            (case read_chars cs of
               None \<Rightarrow> None
             | Some (k, r) \<Rightarrow>
                 (case skip_blanks r of
                    [] \<Rightarrow> None
                  | c2 # r2 \<Rightarrow>
                      if c2 = CHR '':'' then
                        (case read_value n r2 of
                           None \<Rightarrow> None
                         | Some (v, r3) \<Rightarrow>
                             (case skip_blanks r3 of
                                [] \<Rightarrow> None
                              | c3 # r4 \<Rightarrow>
                                  if c3 = CHR '','' then
                                    map_option (apfst ((#) (k, v))) (read_members n r4)
                                  else if c3 = CHR ''}'' then Some ([(k, v)], r4)
                                  else None))
                      else None))
          else None)"

text \<open>What follows a value inside compact text: nothing, a comma or a closing bracket.\<close>

definition ends_value :: "string \<Rightarrow> bool" where
  "ends_value rest =
     (rest = [] \<or> hd rest = CHR '','' \<or> hd rest = CHR '']'' \<or> hd rest = CHR ''}'')"

text \<open>A whole text: one value, with nothing but blanks after it.\<close>

definition read_json :: "string \<Rightarrow> json option" where
  "read_json bytes =
     (case read_value (length bytes) bytes of
        None \<Rightarrow> None
      | Some (j, rest) \<Rightarrow> if skip_blanks rest = [] then Some j else None)"

subsection \<open>Bytes\<close>

text \<open>
  Modelled from the spec: the contract \<open>encode(WireMessage) -> bytes\<close> and
  \<open>decode(bytes) -> WireMessage | DecodeError\<close> of the ProtocolCodec, which is not among
  the sources. The bytes of a message are the JSON text of its envelope; bytes that are
  not well-formed JSON text, or whose value is not an envelope, are malformed.
\<close>

definition encode :: "WireMessage \<Rightarrow> string" where
  "encode m = write_json (to_envelope m)"

definition decode :: "string \<Rightarrow> DecodeError + WireMessage" where
  "decode bytes =
     (case read_json bytes of
        None \<Rightarrow> Inl Malformed
      | Some j \<Rightarrow> of_envelope j)"

section \<open>Properties of the paginated result list\<close>

lemma totalPages_div: "totalPages results = (int (length results) + 4) div 5"
proof -
  have "totalPages results = \<lceil>rat_of_int (int (length results)) / rat_of_int 5\<rceil>"
    by (simp add: totalPages_def resultsPerPage_def)
  also have "\<dots> = - (- int (length results) div 5)"
    by (rule ceiling_divide_eq_div)
  also have "\<dots> = (int (length results) + 4) div 5"
    by presburger
  finally show ?thesis .
qed

lemma totalPages_nonneg: "0 \<le> totalPages results"
  by (simp add: totalPages_div)

lemma paginationRendered_iff: "paginationRendered results \<longleftrightarrow> 5 < length results"
  unfolding paginationRendered_def totalPages_div by presburger

lemma onClick_range:
  assumes "0 \<le> page" and "page \<le> max 0 (totalPages results - 1)"
  shows "0 \<le> onClick results page b \<and> onClick results page b \<le> max 0 (totalPages results - 1)"
proof (cases b)
  case Previous
  with assms show ?thesis
    by (simp add: previousUpdater_def)
next
  case Next
  with assms show ?thesis
    by (auto simp: nextUpdater_def paginationRendered_def)
qed

lemma foldl_onClick_range:
  assumes "0 \<le> page" and "page \<le> max 0 (totalPages results - 1)"
  shows "0 \<le> foldl (onClick results) page clicks
       \<and> foldl (onClick results) page clicks \<le> max 0 (totalPages results - 1)"
  using assms
proof (induction clicks arbitrary: page)
  case Nil
  then show ?case by simp
next
  case (Cons b clicks)
  from onClick_range [OF Cons.prems] show ?case
    by (simp add: Cons.IH)
qed

lemma pageAfter_range:
  "0 \<le> pageAfter results clicks \<and> pageAfter results clicks \<le> max 0 (totalPages results - 1)"
  unfolding pageAfter_def
  by (rule foldl_onClick_range) (simp_all add: totalPages_nonneg)

lemma totalPages_pos: "results \<noteq> [] \<Longrightarrow> 1 \<le> totalPages results"
proof -
  assume "results \<noteq> []"
  then have "1 \<le> int (length results)"
    by (cases results) simp_all
  then show ?thesis
    unfolding totalPages_div by presburger
qed

lemma js_slice_window:
  assumes "0 \<le> a" and "0 \<le> n"
  shows "js_slice xs a (a + n) = take (nat n) (drop (nat a) xs)"
  using assms by (auto simp: js_slice_def Let_def min_def max_def)

lemma paginatedResults_take_drop:
  assumes "0 \<le> page"
  shows "paginatedResults results page = take 5 (drop (nat (5 * page)) results)"
proof -
  have "paginatedResults results page = js_slice results (5 * page) (5 * page + 5)"
    by (simp add: paginatedResults_def resultsPerPage_def algebra_simps)
  also have "\<dots> = take (nat 5) (drop (nat (5 * page)) results)"
    using assms by (intro js_slice_window) simp_all
  finally show ?thesis by simp
qed

text \<open>
  C10, as stated, at the empty result list: the page index is 0 before any click,
  while \<open>ceil(0 / 5) - 1 = -1\<close>, so the index is not within \<open>[0, ceil(length / 5) - 1]\<close>.
\<close>

theorem C10_page_range_counterexample:
  "\<not> (0 \<le> pageAfter [] [] \<and> pageAfter [] [] \<le> totalPages [] - 1)"
  by (simp add: pageAfter_def totalPages_div)

text \<open>
  C10, amended. For every result list and every sequence of Previous/Next clicks from
  page 0: the page index stays within \<open>[0, max(0, ceil(length / 5) - 1)]\<close>, which for
  a non-empty list is \<open>[0, ceil(length / 5) - 1]\<close>; the items rendered are
  exactly the slice \<open>results[5 * page .. 5 * page + 5)\<close>, that is the (at most five) items
  from position \<open>5 * page\<close> on; and the pagination controls are rendered exactly when the
  list has more than five items.
\<close>

theorem C10_pagination:
  fixes results :: "SearchResult list" and clicks :: "button list"
  defines "page \<equiv> pageAfter results clicks"
  shows "0 \<le> page
       \<and> page \<le> max 0 (totalPages results - 1)
       \<and> (results \<noteq> [] \<longrightarrow> page \<le> totalPages results - 1)
       \<and> totalPages results = \<lceil>rat_of_nat (length results) / 5\<rceil>
       \<and> paginatedResults results page = take 5 (drop (nat (5 * page)) results)
       \<and> (paginationRendered results \<longleftrightarrow> 5 < length results)"
proof -
  have range: "0 \<le> page" "page \<le> max 0 (totalPages results - 1)"
    using pageAfter_range [of results clicks] by (simp_all add: page_def)
  have nonempty: "page \<le> totalPages results - 1" if "results \<noteq> []"
    using range(2) totalPages_pos [OF that] by simp
  have ceil: "totalPages results = \<lceil>rat_of_nat (length results) / 5\<rceil>"
    by (simp add: totalPages_def resultsPerPage_def)
  from range nonempty ceil paginatedResults_take_drop [OF range(1)]
    paginationRendered_iff [of results]
  show ?thesis by blast
qed


text \<open>
  Seven results, clicks Next, Next (disabled on the last page), Previous, Next: the
  component ends on page 1 of 2 and renders the sixth and seventh result.
\<close>

theorem C10_pagination_witness:
  "map (\<lambda>t. \<lparr>title = t, snippet = ''s'', url = ''u'', thumbnail = None\<rparr>)
       [''0'', ''1'', ''2'', ''3'', ''4'', ''5'', ''6''] \<noteq> []
   \<and> pageAfter (map (\<lambda>t. \<lparr>title = t, snippet = ''s'', url = ''u'', thumbnail = None\<rparr>)
       [''0'', ''1'', ''2'', ''3'', ''4'', ''5'', ''6'']) [Next, Next, Previous, Next] = 1
   \<and> totalPages (map (\<lambda>t. \<lparr>title = t, snippet = ''s'', url = ''u'', thumbnail = None\<rparr>)
       [''0'', ''1'', ''2'', ''3'', ''4'', ''5'', ''6'']) - 1 = 1
   \<and> paginatedResults (map (\<lambda>t. \<lparr>title = t, snippet = ''s'', url = ''u'', thumbnail = None\<rparr>)
       [''0'', ''1'', ''2'', ''3'', ''4'', ''5'', ''6''])
       (pageAfter (map (\<lambda>t. \<lparr>title = t, snippet = ''s'', url = ''u'', thumbnail = None\<rparr>)
       [''0'', ''1'', ''2'', ''3'', ''4'', ''5'', ''6'']) [Next, Next, Previous, Next])
     = map (\<lambda>t. \<lparr>title = t, snippet = ''s'', url = ''u'', thumbnail = None\<rparr>) [''5'', ''6'']
   \<and> paginationRendered (map (\<lambda>t. \<lparr>title = t, snippet = ''s'', url = ''u'', thumbnail = None\<rparr>)
       [''0'', ''1'', ''2'', ''3'', ''4'', ''5'', ''6''])"
  using C10_pagination [of "map (\<lambda>t. \<lparr>title = t, snippet = ''s'', url = ''u'', thumbnail = None\<rparr>)
       [''0'', ''1'', ''2'', ''3'', ''4'', ''5'', ''6'']" "[Next, Next, Previous, Next]"]
  by (simp add: pageAfter_def paginationRendered_def nextDisabled_def previousDisabled_def
      nextUpdater_def previousUpdater_def totalPages_div)

section \<open>Properties of the email relay endpoint\<close>

lemma starts_with_iff: "starts_with s needle \<longleftrightarrow> (\<exists>post. s = needle @ post)"
  by (induction s needle rule: starts_with.induct) auto

lemma js_includes_iff: "js_includes s needle \<longleftrightarrow> (\<exists>pre post. s = pre @ needle @ post)"
proof (induction s)
  case Nil
  show ?case
    by (cases needle) simp_all
next
  case (Cons x xs)
  show ?case
  proof
    assume "js_includes (x # xs) needle"
    then consider "starts_with (x # xs) needle" | "js_includes xs needle"
      by auto
    then show "\<exists>pre post. x # xs = pre @ needle @ post"
    proof cases
      case 1
      then obtain post where "x # xs = needle @ post"
        by (auto simp: starts_with_iff)
      then have "x # xs = [] @ needle @ post" by simp
      then show ?thesis by blast
    next
      case 2
      then obtain pre post where "xs = pre @ needle @ post"
        using Cons.IH by blast
      then have "x # xs = (x # pre) @ needle @ post" by simp
      then show ?thesis by blast
    qed
  next
    assume "\<exists>pre post. x # xs = pre @ needle @ post"
    then obtain pre post where eq: "x # xs = pre @ needle @ post"
      by blast
    show "js_includes (x # xs) needle"
    proof (cases pre)
      case Nil
      with eq have "starts_with (x # xs) needle"
        by (auto simp: starts_with_iff)
      then show ?thesis by simp
    next
      case (Cons p pre')
      with eq have "xs = pre' @ needle @ post" by simp
      then have "js_includes xs needle"
        using Cons.IH by blast
      then show ?thesis by simp
    qed
  qed
qed

lemma buildMailOptions_present:
  assumes "req_body req = Some body"
  shows "buildMailOptions EMAIL_USER req =
     Inr \<lparr>mail_from = js_or (req_from req) EMAIL_USER,
          mail_to = req_to req,
          mail_subject = req_subject req,
          mail_text = Some body,
          mail_html = (if js_includes body ''<html'' then body else ''<p>'' @ body @ ''</p>'')\<rparr>"
  using assms by (simp add: buildMailOptions_def)

lemma sendEmail_calls:
  assumes "buildMailOptions EMAIL_USER req = Inr mo"
  shows "\<exists>run. sendEmail EMAIL_USER sendMail req = Inr run \<and> sendMailCalls run = [mo]"
  using assms by (cases "sendMail mo") (simp_all add: sendEmail_def)

text \<open>
  C8, as stated, at a request whose \<open>from\<close> member is provided as the empty string: the
  mail handed to the transporter has the configured \<open>EMAIL_USER\<close> as its sender, not
  the \<open>from\<close> of the request.
\<close>

theorem C8_sender_counterexample:
  "\<not> (case sendEmail (Some ''relay@example.com'') (\<lambda>mo. Resolves \<lparr>info_response = ''250 OK''\<rparr>)
          \<lparr>req_to = Some ''ann@example.com'', req_subject = Some ''Hi'',
           req_body = Some ''hello'', req_from = Some ''''\<rparr> of
        Inl e \<Rightarrow> False
      | Inr run \<Rightarrow> map mail_from (sendMailCalls run) = [Some ''''])
   \<and> (case sendEmail (Some ''relay@example.com'') (\<lambda>mo. Resolves \<lparr>info_response = ''250 OK''\<rparr>)
          \<lparr>req_to = Some ''ann@example.com'', req_subject = Some ''Hi'',
           req_body = Some ''hello'', req_from = Some ''''\<rparr> of
        Inl e \<Rightarrow> False
      | Inr run \<Rightarrow> map mail_from (sendMailCalls run) = [Some ''relay@example.com''])"
  by (simp add: sendEmail_def buildMailOptions_def js_or_def)

text \<open>
  C8, amended. For every \<^verbatim>\<open>POST /api/sendEmail\<close> request whose body has the text
  \<open>body\<close>, exactly one mail is handed to the transporter; it has the recipient \<open>to\<close>,
  the subject \<open>subject\<close>, the plain-text field \<open>body\<close>, the sender \<open>from\<close> when \<open>from\<close> is
  provided and is not the empty string and the configured \<open>EMAIL_USER\<close> otherwise, and an
  html field equal to \<open>body\<close> when \<open>body\<close> contains the substring \<^verbatim>\<open><html\<close> and to
  \<^verbatim>\<open><p>\<close> + body + \<^verbatim>\<open></p>\<close> otherwise.
\<close>

theorem C8_mail_fields:
  assumes "req_body req = Some body"
  shows "\<exists>run mo. sendEmail EMAIL_USER sendMail req = Inr run
       \<and> sendMailCalls run = [mo]
       \<and> mail_to mo = req_to req
       \<and> mail_subject mo = req_subject req
       \<and> mail_text mo = Some body
       \<and> mail_from mo =
           (case req_from req of
              None \<Rightarrow> EMAIL_USER
            | Some sender \<Rightarrow> if sender = '''' then EMAIL_USER else Some sender)
       \<and> mail_html mo =
           (if \<exists>pre post. body = pre @ ''<html'' @ post then body
            else ''<p>'' @ body @ ''</p>'')"
proof -
  define mo where "mo = \<lparr>mail_from = js_or (req_from req) EMAIL_USER,
          mail_to = req_to req,
          mail_subject = req_subject req,
          mail_text = Some body,
          mail_html = (if js_includes body ''<html'' then body else ''<p>'' @ body @ ''</p>'')\<rparr>"
  have built: "buildMailOptions EMAIL_USER req = Inr mo"
    unfolding mo_def by (rule buildMailOptions_present [OF assms])
  from sendEmail_calls [OF built] obtain run
    where run: "sendEmail EMAIL_USER sendMail req = Inr run" "sendMailCalls run = [mo]"
    by blast
  have sender: "mail_from mo =
      (case req_from req of
         None \<Rightarrow> EMAIL_USER
       | Some sender \<Rightarrow> if sender = '''' then EMAIL_USER else Some sender)"
    by (simp add: mo_def js_or_def)
  have html: "mail_html mo =
      (if \<exists>pre post. body = pre @ ''<html'' @ post then body else ''<p>'' @ body @ ''</p>'')"
    by (simp only: mo_def mailOptions.simps js_includes_iff)
  have rest: "mail_to mo = req_to req" "mail_subject mo = req_subject req"
      "mail_text mo = Some body"
    by (simp_all add: mo_def)
  from run sender html rest show ?thesis
    by blast
qed

text \<open>
  A request with a sender and an html body: the mail keeps both as they are.
\<close>

theorem C8_mail_fields_witness:
  "req_body \<lparr>req_to = Some ''ann@example.com'', req_subject = Some ''Hi'',
             req_body = Some ''<html><b>hello</b></html>'', req_from = Some ''bob@example.com''\<rparr>
     = Some ''<html><b>hello</b></html>''
   \<and> (\<exists>run mo. sendEmail (Some ''relay@example.com'') (\<lambda>mo. Pending)
          \<lparr>req_to = Some ''ann@example.com'', req_subject = Some ''Hi'',
           req_body = Some ''<html><b>hello</b></html>'', req_from = Some ''bob@example.com''\<rparr>
          = Inr run
       \<and> sendMailCalls run = [mo]
       \<and> mail_to mo = Some ''ann@example.com''
       \<and> mail_subject mo = Some ''Hi''
       \<and> mail_text mo = Some ''<html><b>hello</b></html>''
       \<and> mail_from mo = Some ''bob@example.com''
       \<and> mail_html mo = ''<html><b>hello</b></html>'')"
proof -
  have "\<exists>pre post. ''<html><b>hello</b></html>'' = pre @ ''<html'' @ post"
    by (rule exI [of _ "[]"], rule exI [of _ "''><b>hello</b></html>''"]) simp
  with C8_mail_fields [of "\<lparr>req_to = Some ''ann@example.com'', req_subject = Some ''Hi'',
             req_body = Some ''<html><b>hello</b></html>'', req_from = Some ''bob@example.com''\<rparr>"
      "''<html><b>hello</b></html>''" "Some ''relay@example.com''" "\<lambda>mo. Pending"]
  show ?thesis by simp
qed

text \<open>
  C9. For every request whose body has a text \<open>body\<close>, the handler builds the mail,
  hands it to the transporter and returns; it responds with status 200 and
  \<^verbatim>\<open>{message: 'Email sent successfully', info}\<close> exactly when \<open>sendMail\<close> resolves, with
  status 500 and \<^verbatim>\<open>{error: 'Failed to send email', details: error.message}\<close> exactly
  when \<open>sendMail\<close> rejects, and with nothing while the promise is pending; no other
  status is ever sent.
\<close>

theorem C9_status:
  assumes "req_body req = Some body"
  shows "\<exists>run mo. sendEmail EMAIL_USER sendMail req = Inr run
       \<and> buildMailOptions EMAIL_USER req = Inr mo
       \<and> response run =
           (case sendMail mo of
              Resolves info \<Rightarrow>
                Some \<lparr>status = 200, json = SentBody ''Email sent successfully'' info\<rparr>
            | Rejects error \<Rightarrow>
                Some \<lparr>status = 500,
                      json = FailedBody ''Failed to send email'' (error_message error)\<rparr>
            | Pending \<Rightarrow> None)
       \<and> ((\<exists>r. response run = Some r \<and> status r = 200)
            \<longleftrightarrow> (\<exists>info. sendMail mo = Resolves info))
       \<and> ((\<exists>r. response run = Some r \<and> status r = 500)
            \<longleftrightarrow> (\<exists>error. sendMail mo = Rejects error))
       \<and> (\<forall>r. response run = Some r \<longrightarrow> status r = 200 \<or> status r = 500)"
proof -
  from buildMailOptions_present [OF assms] obtain mo
    where built: "buildMailOptions EMAIL_USER req = Inr mo"
    by blast
  show ?thesis
  proof (cases "sendMail mo")
    case (Resolves info)
    with built show ?thesis
      by (simp add: sendEmail_def)
  next
    case (Rejects error)
    with built show ?thesis
      by (simp add: sendEmail_def)
  next
    case Pending
    with built show ?thesis
      by (simp add: sendEmail_def)
  qed
qed

text \<open>
  A transporter that rejects with "Invalid login": the endpoint answers 500 with the
  error's message as details.
\<close>

theorem C9_status_witness:
  "req_body \<lparr>req_to = Some ''ann@example.com'', req_subject = Some ''Hi'',
             req_body = Some ''hello'', req_from = None\<rparr> = Some ''hello''
   \<and> (\<exists>run. sendEmail (Some ''relay@example.com'')
          (\<lambda>mo. Rejects \<lparr>error_message = ''Invalid login''\<rparr>)
          \<lparr>req_to = Some ''ann@example.com'', req_subject = Some ''Hi'',
           req_body = Some ''hello'', req_from = None\<rparr> = Inr run
       \<and> response run =
           Some \<lparr>status = 500, json = FailedBody ''Failed to send email'' ''Invalid login''\<rparr>)"
  using C9_status [of "\<lparr>req_to = Some ''ann@example.com'', req_subject = Some ''Hi'',
             req_body = Some ''hello'', req_from = None\<rparr>" "''hello''"
      "Some ''relay@example.com''" "\<lambda>mo. Rejects \<lparr>error_message = ''Invalid login''\<rparr>"]
  by auto

section \<open>Properties of the tool-call handler and the session configuration\<close>

lemma fst_onToolCall: "fst (onToolCall toolCall s) = None \<longleftrightarrow> \<not> handlerThrows toolCall"
  by (simp add: onToolCall_def handlerThrows_def Let_def split: option.split sum.split)

lemma timeouts_onToolCall:
  "timeouts (snd (onToolCall toolCall s)) =
     timeouts s @ (if handlerThrows toolCall \<or> functionCalls toolCall = [] then [] else [toolCall])"
  by (simp add: onToolCall_def handlerThrows_def scheduleResponse_def Let_def
      split: option.split sum.split)

lemma toolResponsesSent_onToolCall:
  "toolResponsesSent (snd (onToolCall toolCall s)) = toolResponsesSent s"
  by (simp add: onToolCall_def scheduleResponse_def Let_def split: option.split sum.split)

lemma jsonString_onToolCall:
  "jsonString (snd (onToolCall toolCall s)) =
     (case findCall toolCall of
        None \<Rightarrow> jsonString s
      | Some fc \<Rightarrow>
          (case json_graph_of (fc_args fc) of
             Inl e \<Rightarrow> jsonString s
           | Inr str \<Rightarrow> str))"
  by (simp add: onToolCall_def scheduleResponse_def Let_def split: option.split sum.split)

lemma runEvents_append: "runEvents (es @ es') s = runEvents es' (runEvents es s)"
  by (simp add: runEvents_def)

lemma runEvents_fire_all:
  "length (timeouts s) = n \<Longrightarrow>
   runEvents (replicate n TimeoutFires) s =
     s\<lparr>timeouts := [],
       toolResponsesSent := toolResponsesSent s @ map toolResponseFor (timeouts s)\<rparr>"
proof (induction n arbitrary: s)
  case 0
  then show ?case by (simp add: runEvents_def)
next
  case (Suc n)
  then obtain toolCall rest where ts: "timeouts s = toolCall # rest"
    by (cases "timeouts s") simp_all
  let ?s' = "timeoutFires s"
  have s': "timeouts ?s' = rest"
      "toolResponsesSent ?s' = toolResponsesSent s @ [toolResponseFor toolCall]"
    by (simp_all add: timeoutFires_def ts)
  have "length (timeouts ?s') = n"
    using Suc.prems by (simp add: s' ts)
  from Suc.IH [OF this]
  have "runEvents (replicate n TimeoutFires) ?s' =
      ?s'\<lparr>timeouts := [],
        toolResponsesSent := toolResponsesSent ?s' @ map toolResponseFor (timeouts ?s')\<rparr>" .
  then show ?case
    by (simp add: runEvents_def s' ts) (simp add: timeoutFires_def ts)
qed

lemma drain_eq:
  "drain s = s\<lparr>timeouts := [],
       toolResponsesSent := toolResponsesSent s @ map toolResponseFor (timeouts s)\<rparr>"
  unfolding drain_def by (rule runEvents_fire_all) simp

lemma ids_toolResponseFor:
  "map fr_id (functionResponses (toolResponseFor toolCall)) = map fc_id (functionCalls toolCall)"
  by (simp add: toolResponseFor_def comp_def)

lemma step_invariant:
  "map fr_id (functionResponsesSent (step s e)) @ map fc_id (pendingCalls (step s e))
   = map fr_id (functionResponsesSent s) @ map fc_id (pendingCalls s)
       @ map fc_id (acceptedCallsOf e)"
proof (cases e)
  case (ToolCallEvent toolCall)
  then show ?thesis
    by (simp add: functionResponsesSent_def pendingCalls_def timeouts_onToolCall
        toolResponsesSent_onToolCall)
next
  case TimeoutFires
  then show ?thesis
    by (cases "timeouts s")
       (simp_all add: functionResponsesSent_def pendingCalls_def timeoutFires_def
         ids_toolResponseFor)
qed

lemma trace_invariant:
  "map fr_id (functionResponsesSent (runEvents events initialState))
     @ map fc_id (pendingCalls (runEvents events initialState))
   = map fc_id (acceptedCalls events)"
proof (induction events rule: rev_induct)
  case Nil
  show ?case
    by (simp add: runEvents_def initialState_def functionResponsesSent_def pendingCalls_def
        acceptedCalls_def)
next
  case (snoc e events)
  have "runEvents (events @ [e]) initialState = step (runEvents events initialState) e"
    by (simp add: runEvents_def)
  with snoc step_invariant [of "runEvents events initialState" e] show ?case
    by (simp add: acceptedCalls_def)
qed

lemma acceptedCallsOf_cases:
  "acceptedCallsOf e = callsOf e \<or> acceptedCallsOf e = []"
  by (cases e) simp_all

lemma acceptedCalls_subset: "set (acceptedCalls events) \<subseteq> set (observedCalls events)"
proof (induction events)
  case Nil
  show ?case by (simp add: acceptedCalls_def observedCalls_def)
next
  case (Cons e events)
  with acceptedCallsOf_cases [of e] show ?case
    by (auto simp: acceptedCalls_def observedCalls_def)
qed

lemma acceptedCalls_count:
  "length (filter P (acceptedCalls events)) \<le> length (filter P (observedCalls events))"
proof (induction events)
  case Nil
  show ?case by (simp add: acceptedCalls_def observedCalls_def)
next
  case (Cons e events)
  with acceptedCallsOf_cases [of e] show ?case
    by (auto simp: acceptedCalls_def observedCalls_def)
qed

lemma acceptedCalls_all:
  assumes "\<forall>e \<in> set events. \<not> throwsAt e"
  shows "acceptedCalls events = observedCalls events"
  using assms
proof (induction events)
  case Nil
  show ?case by (simp add: acceptedCalls_def observedCalls_def)
next
  case (Cons e events)
  then have "acceptedCallsOf e = callsOf e"
    by (cases e) simp_all
  with Cons show ?case
    by (simp add: acceptedCalls_def observedCalls_def)
qed

lemma functionResponsesSent_drain:
  "functionResponsesSent (drain s) =
     functionResponsesSent s @ concat (map (functionResponses \<circ> toolResponseFor) (timeouts s))"
  by (simp add: drain_eq functionResponsesSent_def)

lemma pendingCalls_drain: "pendingCalls (drain s) = []"
  by (simp add: drain_eq pendingCalls_def)

lemma functionResponsesSent_drain_onToolCall:
  assumes "\<not> handlerThrows toolCall"
  shows "functionResponsesSent (drain (snd (onToolCall toolCall s))) =
     functionResponsesSent (drain s) @ functionResponses (toolResponseFor toolCall)"
proof -
  have "functionResponsesSent (snd (onToolCall toolCall s)) = functionResponsesSent s"
    by (simp add: functionResponsesSent_def toolResponsesSent_onToolCall)
  with assms show ?thesis
    by (simp add: functionResponsesSent_drain timeouts_onToolCall toolResponseFor_def)
qed

lemma drain_as_trace:
  "drain (runEvents events s) =
     runEvents (events @ replicate (length (timeouts (runEvents events s))) TimeoutFires) s"
  by (simp add: drain_def runEvents_append)

lemma acceptedCalls_append_fires:
  "acceptedCalls (events @ replicate n TimeoutFires) = acceptedCalls events"
  by (induction n) (simp_all add: acceptedCalls_def replicate_append_same [symmetric]
       del: replicate_Suc)

lemma filter_ids_count:
  "length (filter (\<lambda>r. fr_id r = x) (functionResponses (toolResponseFor toolCall)))
   = length (filter (\<lambda>fc. fc_id fc = x) (functionCalls toolCall))"
  by (simp add: toolResponseFor_def filter_map comp_def)

lemma distinct_filter_one:
  assumes "distinct (map f xs)" and "y \<in> set xs"
  shows "length (filter (\<lambda>z. f z = f y) xs) = 1"
  using assms
proof (induction xs)
  case Nil
  then show ?case by simp
next
  case (Cons a xs)
  show ?case
  proof (cases "y = a")
    case True
    with Cons.prems have "filter (\<lambda>z. f z = f a) xs = []"
      by (auto simp: filter_empty_conv image_iff)
    with True show ?thesis by simp
  next
    case False
    with Cons.prems have "y \<in> set xs" and "f a \<noteq> f y"
      by (auto simp: image_iff)
    with Cons show ?thesis by simp
  qed
qed

lemma member_filter_pos:
  assumes "y \<in> set xs"
  shows "1 \<le> length (filter (\<lambda>z. f z = f y) xs)"
proof -
  from assms have "y \<in> set (filter (\<lambda>z. f z = f y) xs)"
    by simp
  then have "filter (\<lambda>z. f z = f y) xs \<noteq> []"
    by (metis empty_iff empty_set)
  then show ?thesis
    by (cases "filter (\<lambda>z. f z = f y) xs") simp_all
qed

lemma findCall_Some_name:
  "findCall toolCall = Some fc \<Longrightarrow>
     fc_name fc = name renderAltairDeclaration \<and> fc \<in> set (functionCalls toolCall)"
  unfolding findCall_def by (auto simp: find_Some_iff)

lemma findCall_None_iff:
  "findCall toolCall = None \<longleftrightarrow>
     (\<forall>fc \<in> set (functionCalls toolCall). fc_name fc \<noteq> name renderAltairDeclaration)"
  unfolding findCall_def by (auto simp: find_None_iff)

lemma success_not_error:
  "\<not> spec_carriesError \<lparr>fr_response = successResponse, fr_id = x\<rparr>"
  by (simp add: spec_carriesError_def successResponse_def)

text \<open>
  A batch whose call for the declared tool has no \<open>args\<close>: reading \<open>json_graph\<close> throws
  before the response is scheduled, and no response is sent for any call of the batch.
\<close>

lemma onToolCall_throws_without_args:
  "fst (onToolCall
      \<lparr>functionCalls =
         [\<lparr>fc_name = ''send_email'', fc_args = Some (JObject []), fc_id = ''1''\<rparr>,
          \<lparr>fc_name = ''render_altair'', fc_args = None, fc_id = ''2''\<rparr>]\<rparr> initialState)
     = Some TypeError
   \<and> functionResponsesSent (drain (snd (onToolCall
      \<lparr>functionCalls =
         [\<lparr>fc_name = ''send_email'', fc_args = Some (JObject []), fc_id = ''1''\<rparr>,
          \<lparr>fc_name = ''render_altair'', fc_args = None, fc_id = ''2''\<rparr>]\<rparr> initialState))) = []"
  by (simp add: drain_eq onToolCall_def findCall_def renderAltairDeclaration_def
      json_graph_of_def initialState_def functionResponsesSent_def)

text \<open>
  C1, as stated, at a batch of two calls that carry the same id: the handler returns,
  and two responses with that id are sent, not one.
\<close>

theorem C1_repeated_id_counterexample:
  "fst (onToolCall
      \<lparr>functionCalls =
         [\<lparr>fc_name = ''send_email'', fc_args = Some (JObject []), fc_id = ''1''\<rparr>,
          \<lparr>fc_name = ''send_email'', fc_args = Some (JObject []), fc_id = ''1''\<rparr>]\<rparr>
      initialState) = None
   \<and> length (filter (\<lambda>r. fr_id r = ''1'')
        (functionResponsesSent (drain (snd (onToolCall
          \<lparr>functionCalls =
             [\<lparr>fc_name = ''send_email'', fc_args = Some (JObject []), fc_id = ''1''\<rparr>,
              \<lparr>fc_name = ''send_email'', fc_args = Some (JObject []), fc_id = ''1''\<rparr>]\<rparr>
          initialState))))) = 2"
  by (simp add: drain_eq onToolCall_def findCall_def renderAltairDeclaration_def
      scheduleResponse_def initialState_def functionResponsesSent_def toolResponseFor_def)

text \<open>
  C1, amended. For every batch on which the handler returns, once the scheduled
  timeouts have fired exactly the responses of that batch have been added to what is
  sent: one response per call of the batch, in the batch's order, the i-th response
  carrying the id of the i-th call. For every id the number of responses carrying it
  equals the number of calls of the batch carrying it: never zero for a call of the
  batch, and exactly one when the ids of the batch are distinct. Over a whole trace from
  the initial state, once every timeout has fired the ids of the responses sent are the
  ids of the calls of the batches on which the handler returned, call by call; they are
  the ids of all the calls observed when the handler threw on no batch.
\<close>

theorem C1_one_response_per_call:
  fixes toolCall :: ToolCall and s :: AltairState and events :: "event list"
  defines "batch \<equiv> functionResponses (toolResponseFor toolCall)"
  assumes returns: "fst (onToolCall toolCall s) = None"
  shows "functionResponsesSent (drain (snd (onToolCall toolCall s)))
           = functionResponsesSent (drain s) @ batch
       \<and> timeouts (drain (snd (onToolCall toolCall s))) = []
       \<and> length batch = length (functionCalls toolCall)
       \<and> (\<forall>i < length (functionCalls toolCall).
             fr_id (batch ! i) = fc_id (functionCalls toolCall ! i))
       \<and> (\<forall>x. length (filter (\<lambda>r. fr_id r = x) batch)
             = length (filter (\<lambda>fc. fc_id fc = x) (functionCalls toolCall)))
       \<and> (\<forall>fc \<in> set (functionCalls toolCall).
             1 \<le> length (filter (\<lambda>r. fr_id r = fc_id fc) batch))
       \<and> (distinct (map fc_id (functionCalls toolCall)) \<longrightarrow>
            (\<forall>fc \<in> set (functionCalls toolCall).
               length (filter (\<lambda>r. fr_id r = fc_id fc) batch) = 1))
       \<and> map fr_id (functionResponsesSent (drain (runEvents events initialState)))
           = map fc_id (acceptedCalls events)
       \<and> ((\<forall>e \<in> set events. \<not> throwsAt e) \<longrightarrow>
            map fr_id (functionResponsesSent (drain (runEvents events initialState)))
              = map fc_id (observedCalls events))"
proof -
  from returns have accepted: "\<not> handlerThrows toolCall"
    by (simp add: fst_onToolCall)
  have sent: "functionResponsesSent (drain (snd (onToolCall toolCall s)))
      = functionResponsesSent (drain s) @ batch"
    unfolding batch_def by (rule functionResponsesSent_drain_onToolCall [OF accepted])
  have none_pending: "timeouts (drain (snd (onToolCall toolCall s))) = []"
    by (simp add: drain_eq)
  have len: "length batch = length (functionCalls toolCall)"
    by (simp add: batch_def toolResponseFor_def)
  have ids: "\<forall>i < length (functionCalls toolCall).
      fr_id (batch ! i) = fc_id (functionCalls toolCall ! i)"
    by (simp add: batch_def toolResponseFor_def)
  have counts: "\<forall>x. length (filter (\<lambda>r. fr_id r = x) batch)
      = length (filter (\<lambda>fc. fc_id fc = x) (functionCalls toolCall))"
    unfolding batch_def by (simp add: filter_ids_count)
  have some: "\<forall>fc \<in> set (functionCalls toolCall).
      1 \<le> length (filter (\<lambda>r. fr_id r = fc_id fc) batch)"
  proof
    fix fc assume "fc \<in> set (functionCalls toolCall)"
    then have "1 \<le> length (filter (\<lambda>c. fc_id c = fc_id fc) (functionCalls toolCall))"
      by (rule member_filter_pos)
    with counts show "1 \<le> length (filter (\<lambda>r. fr_id r = fc_id fc) batch)"
      by simp
  qed
  have once: "distinct (map fc_id (functionCalls toolCall)) \<longrightarrow>
      (\<forall>fc \<in> set (functionCalls toolCall).
         length (filter (\<lambda>r. fr_id r = fc_id fc) batch) = 1)"
    using counts by (auto simp: distinct_filter_one)
  have trace: "map fr_id (functionResponsesSent (drain (runEvents events initialState)))
      = map fc_id (acceptedCalls events)"
  proof -
    let ?all = "events @ replicate (length (timeouts (runEvents events initialState))) TimeoutFires"
    have "drain (runEvents events initialState) = runEvents ?all initialState"
      by (rule drain_as_trace)
    moreover have "pendingCalls (runEvents ?all initialState) = []"
      using pendingCalls_drain [of "runEvents events initialState"]
      by (simp add: drain_as_trace)
    ultimately show ?thesis
      using trace_invariant [of ?all] by (simp add: acceptedCalls_append_fires)
  qed
  have all_trace: "(\<forall>e \<in> set events. \<not> throwsAt e) \<longrightarrow>
      map fr_id (functionResponsesSent (drain (runEvents events initialState)))
        = map fc_id (observedCalls events)"
    using trace by (auto simp: acceptedCalls_all)
  from sent none_pending len ids counts some once trace all_trace show ?thesis
    by blast
qed

text \<open>
  A batch of two calls, one for the declared tool and one for another tool: the handler
  returns and two responses are sent, the first with id 1 and the second with id 2.
\<close>

theorem C1_one_response_per_call_witness:
  "fst (onToolCall
      \<lparr>functionCalls =
         [\<lparr>fc_name = ''render_altair'',
           fc_args = Some (JObject [(''json_graph'', JString ''{}'')]), fc_id = ''1''\<rparr>,
          \<lparr>fc_name = ''send_email'', fc_args = Some (JObject []), fc_id = ''2''\<rparr>]\<rparr>
      initialState) = None
   \<and> distinct (map fc_id (functionCalls
      \<lparr>functionCalls =
         [\<lparr>fc_name = ''render_altair'',
           fc_args = Some (JObject [(''json_graph'', JString ''{}'')]), fc_id = ''1''\<rparr>,
          \<lparr>fc_name = ''send_email'', fc_args = Some (JObject []), fc_id = ''2''\<rparr>]\<rparr>))
   \<and> (1::nat) < length (functionCalls
      \<lparr>functionCalls =
         [\<lparr>fc_name = ''render_altair'',
           fc_args = Some (JObject [(''json_graph'', JString ''{}'')]), fc_id = ''1''\<rparr>,
          \<lparr>fc_name = ''send_email'', fc_args = Some (JObject []), fc_id = ''2''\<rparr>]\<rparr>)
   \<and> \<not> throwsAt (ToolCallEvent
      \<lparr>functionCalls =
         [\<lparr>fc_name = ''render_altair'',
           fc_args = Some (JObject [(''json_graph'', JString ''{}'')]), fc_id = ''1''\<rparr>,
          \<lparr>fc_name = ''send_email'', fc_args = Some (JObject []), fc_id = ''2''\<rparr>]\<rparr>)
   \<and> map fr_id (functionResponsesSent (drain (snd (onToolCall
      \<lparr>functionCalls =
         [\<lparr>fc_name = ''render_altair'',
           fc_args = Some (JObject [(''json_graph'', JString ''{}'')]), fc_id = ''1''\<rparr>,
          \<lparr>fc_name = ''send_email'', fc_args = Some (JObject []), fc_id = ''2''\<rparr>]\<rparr>
      initialState))))
       = [''1'', ''2'']
   \<and> length (filter (\<lambda>r. fr_id r = ''2'') (functionResponsesSent (drain (snd (onToolCall
      \<lparr>functionCalls =
         [\<lparr>fc_name = ''render_altair'',
           fc_args = Some (JObject [(''json_graph'', JString ''{}'')]), fc_id = ''1''\<rparr>,
          \<lparr>fc_name = ''send_email'', fc_args = Some (JObject []), fc_id = ''2''\<rparr>]\<rparr>
      initialState))))) = 1"
proof -
  let ?batch = "\<lparr>functionCalls =
         [\<lparr>fc_name = ''render_altair'',
           fc_args = Some (JObject [(''json_graph'', JString ''{}'')]), fc_id = ''1''\<rparr>,
          \<lparr>fc_name = ''send_email'', fc_args = Some (JObject []), fc_id = ''2''\<rparr>]\<rparr>"
  have returns: "fst (onToolCall ?batch initialState) = None"
    by (simp add: onToolCall_def findCall_def renderAltairDeclaration_def json_graph_of_def)
  have quiet: "\<not> throwsAt (ToolCallEvent ?batch)"
    by (simp add: handlerThrows_def findCall_def renderAltairDeclaration_def json_graph_of_def)
  have start: "functionResponsesSent (drain initialState) = []"
    by (simp add: drain_eq initialState_def functionResponsesSent_def)
  from C1_one_response_per_call [where toolCall = ?batch and s = initialState
      and events = "[ToolCallEvent ?batch]", OF returns]
  have "functionResponsesSent (drain (snd (onToolCall ?batch initialState)))
      = functionResponsesSent (drain initialState) @ functionResponses (toolResponseFor ?batch)"
    by (rule conjunct1)
  then have sent: "functionResponsesSent (drain (snd (onToolCall ?batch initialState)))
      = [\<lparr>fr_response = successResponse, fr_id = ''1''\<rparr>,
         \<lparr>fr_response = successResponse, fr_id = ''2''\<rparr>]"
    by (simp add: start toolResponseFor_def)
  from returns quiet sent show ?thesis
    by simp
qed


text \<open>
  C2, as stated, at the specification's own scenario: the batch holding the single call
  \<^verbatim>\<open>FunctionCall{id: "42", name: "unregistered"}\<close>. The response sent for id 42 is the
  success result \<^verbatim>\<open>{output: {success: true}}\<close>; it carries no error, and it is not the
  UnknownTool response.
\<close>

theorem C2_unknown_tool_counterexample:
  "functionResponsesSent (drain (snd (onToolCall
      \<lparr>functionCalls = [\<lparr>fc_name = ''unregistered'', fc_args = Some (JObject []), fc_id = ''42''\<rparr>]\<rparr>
      initialState)))
     = [\<lparr>fr_response = JObject [(''output'', JObject [(''success'', JBool True)])],
         fr_id = ''42''\<rparr>]
   \<and> \<not> spec_carriesError
        \<lparr>fr_response = JObject [(''output'', JObject [(''success'', JBool True)])],
         fr_id = ''42''\<rparr>
   \<and> functionResponsesSent (drain (snd (onToolCall
      \<lparr>functionCalls = [\<lparr>fc_name = ''unregistered'', fc_args = Some (JObject []), fc_id = ''42''\<rparr>]\<rparr>
      initialState)))
     \<noteq> [spec_unknownToolResponse ''42'']"
  by (simp add: drain_eq onToolCall_def findCall_def renderAltairDeclaration_def
      scheduleResponse_def initialState_def functionResponsesSent_def toolResponseFor_def
      successResponse_def spec_carriesError_def spec_unknownToolResponse_def)

text \<open>
  C2, amended. If a function call arrives whose name is not the name of the declared
  tool (\<open>render_altair\<close>, the only name the handler looks for), in a batch on which the
  handler returns, a function response carrying the success result
  \<^verbatim>\<open>{output: {success: true}}\<close>, and no error, is sent for that call's id, as for every
  call of the batch. The handler's action (storing the \<open>json_graph\<close> argument) is not
  taken for that call, and when no call of the batch has the declared name the
  component's state \<open>jsonString\<close> is left as it was.
\<close>

theorem C2_unhandled_call_gets_success:
  assumes "fc \<in> set (functionCalls toolCall)"
    and "fc_name fc \<noteq> name renderAltairDeclaration"
    and "fst (onToolCall toolCall s) = None"
  shows "\<lparr>fr_response = successResponse, fr_id = fc_id fc\<rparr>
           \<in> set (functionResponsesSent (drain (snd (onToolCall toolCall s))))
       \<and> \<not> spec_carriesError \<lparr>fr_response = successResponse, fr_id = fc_id fc\<rparr>
       \<and> (\<forall>r \<in> set (functionResponses (toolResponseFor toolCall)).
             fr_response r = successResponse)
       \<and> findCall toolCall \<noteq> Some fc
       \<and> ((\<forall>c \<in> set (functionCalls toolCall). fc_name c \<noteq> name renderAltairDeclaration)
            \<longrightarrow> jsonString (snd (onToolCall toolCall s)) = jsonString s)"
proof -
  from assms(3) have accepted: "\<not> handlerThrows toolCall"
    by (simp add: fst_onToolCall)
  have "\<lparr>fr_response = successResponse, fr_id = fc_id fc\<rparr>
      \<in> set (functionResponses (toolResponseFor toolCall))"
    using assms(1) by (auto simp: toolResponseFor_def)
  then have sent: "\<lparr>fr_response = successResponse, fr_id = fc_id fc\<rparr>
      \<in> set (functionResponsesSent (drain (snd (onToolCall toolCall s))))"
    by (simp add: functionResponsesSent_drain_onToolCall [OF accepted])
  have all_success: "\<forall>r \<in> set (functionResponses (toolResponseFor toolCall)).
      fr_response r = successResponse"
    by (auto simp: toolResponseFor_def)
  have not_handled: "findCall toolCall \<noteq> Some fc"
    using assms(2) findCall_Some_name by blast
  have unchanged: "(\<forall>c \<in> set (functionCalls toolCall). fc_name c \<noteq> name renderAltairDeclaration)
      \<longrightarrow> jsonString (snd (onToolCall toolCall s)) = jsonString s"
    by (simp add: jsonString_onToolCall findCall_None_iff [symmetric])
  from sent success_not_error all_success not_handled unchanged show ?thesis
    by blast
qed

text \<open>The scenario of the specification, from the initial state.\<close>

theorem C2_unhandled_call_gets_success_witness:
  "\<lparr>fc_name = ''unregistered'', fc_args = Some (JObject []), fc_id = ''42''\<rparr>
      \<in> set (functionCalls
          \<lparr>functionCalls = [\<lparr>fc_name = ''unregistered'', fc_args = Some (JObject []), fc_id = ''42''\<rparr>]\<rparr>)
   \<and> fc_name \<lparr>fc_name = ''unregistered'', fc_args = Some (JObject []), fc_id = ''42''\<rparr>
        \<noteq> name renderAltairDeclaration
   \<and> fst (onToolCall
         \<lparr>functionCalls = [\<lparr>fc_name = ''unregistered'', fc_args = Some (JObject []), fc_id = ''42''\<rparr>]\<rparr>
         initialState) = None
   \<and> \<lparr>fr_response = successResponse, fr_id = ''42''\<rparr>
        \<in> set (functionResponsesSent (drain (snd (onToolCall
            \<lparr>functionCalls = [\<lparr>fc_name = ''unregistered'', fc_args = Some (JObject []), fc_id = ''42''\<rparr>]\<rparr>
            initialState))))
   \<and> jsonString (snd (onToolCall
         \<lparr>functionCalls = [\<lparr>fc_name = ''unregistered'', fc_args = Some (JObject []), fc_id = ''42''\<rparr>]\<rparr>
         initialState)) = Some (JString [])"
proof -
  let ?fc = "\<lparr>fc_name = ''unregistered'', fc_args = Some (JObject []), fc_id = ''42''\<rparr>"
  let ?batch = "\<lparr>functionCalls = [?fc]\<rparr>"
  have listed: "?fc \<in> set (functionCalls ?batch)"
    by simp
  have other: "fc_name ?fc \<noteq> name renderAltairDeclaration"
    by (simp add: renderAltairDeclaration_def)
  have returns: "fst (onToolCall ?batch initialState) = None"
    by (simp add: onToolCall_def findCall_def renderAltairDeclaration_def)
  note inst = C2_unhandled_call_gets_success [where fc = ?fc and toolCall = ?batch
      and s = initialState, OF listed other returns]
  from inst have sent: "\<lparr>fr_response = successResponse, fr_id = fc_id ?fc\<rparr>
      \<in> set (functionResponsesSent (drain (snd (onToolCall ?batch initialState))))"
    by (rule conjunct1)
  from inst have "(\<forall>c \<in> set (functionCalls ?batch). fc_name c \<noteq> name renderAltairDeclaration)
      \<longrightarrow> jsonString (snd (onToolCall ?batch initialState)) = jsonString initialState"
    by (elim conjE)
  then have kept: "jsonString (snd (onToolCall ?batch initialState)) = Some (JString [])"
    by (simp add: renderAltairDeclaration_def initialState_def)
  from listed other returns sent kept show ?thesis
    by simp
qed

text \<open>
  C3. After any trace of delivered batches and fired timeouts from the initial state,
  the ids of the responses sent so far, followed by the ids of the calls still pending,
  are the ids of the calls of the batches on which the handler returned, in order (all
  the calls observed, when the handler threw on no batch). So every response sent
  carries the id of a call that was observed before and had no response yet: an id that
  was never observed is never the id of a response, and no id has more responses than
  observed calls.
\<close>

theorem C3_responses_answer_observed_calls:
  fixes events :: "event list"
  defines "s \<equiv> runEvents events initialState"
  shows "map fr_id (functionResponsesSent s) @ map fc_id (pendingCalls s)
           = map fc_id (acceptedCalls events)
       \<and> ((\<forall>e \<in> set events. \<not> throwsAt e) \<longrightarrow>
            map fr_id (functionResponsesSent s) @ map fc_id (pendingCalls s)
              = map fc_id (observedCalls events))
       \<and> (\<forall>r \<in> set (functionResponsesSent s). fr_id r \<in> fc_id ` set (observedCalls events))
       \<and> (\<forall>x. x \<notin> fc_id ` set (observedCalls events)
             \<longrightarrow> x \<notin> fr_id ` set (functionResponsesSent s))
       \<and> (\<forall>x. length (filter (\<lambda>r. fr_id r = x) (functionResponsesSent s))
             \<le> length (filter (\<lambda>fc. fc_id fc = x) (observedCalls events)))"
proof -
  have inv: "map fr_id (functionResponsesSent s) @ map fc_id (pendingCalls s)
      = map fc_id (acceptedCalls events)"
    unfolding s_def by (rule trace_invariant)
  have all_inv: "(\<forall>e \<in> set events. \<not> throwsAt e) \<longrightarrow>
      map fr_id (functionResponsesSent s) @ map fc_id (pendingCalls s)
        = map fc_id (observedCalls events)"
    using inv by (auto simp: acceptedCalls_all)
  have "set (map fr_id (functionResponsesSent s)) \<subseteq> set (map fc_id (acceptedCalls events))"
    by (subst inv [symmetric]) simp
  also have "\<dots> \<subseteq> set (map fc_id (observedCalls events))"
    using acceptedCalls_subset [of events] by auto
  finally have sub: "fr_id ` set (functionResponsesSent s) \<subseteq> fc_id ` set (observedCalls events)"
    by simp
  have count: "length (filter (\<lambda>r. fr_id r = x) (functionResponsesSent s))
      \<le> length (filter (\<lambda>fc. fc_id fc = x) (observedCalls events))" for x
  proof -
    have "length (filter (\<lambda>fc. fc_id fc = x) (acceptedCalls events))
        = length (filter (\<lambda>y. y = x) (map fc_id (acceptedCalls events)))"
      by (simp add: filter_map comp_def)
    also have "\<dots> = length (filter (\<lambda>y. y = x) (map fr_id (functionResponsesSent s)))
        + length (filter (\<lambda>y. y = x) (map fc_id (pendingCalls s)))"
      by (subst inv [symmetric]) simp
    finally have "length (filter (\<lambda>r. fr_id r = x) (functionResponsesSent s))
        \<le> length (filter (\<lambda>fc. fc_id fc = x) (acceptedCalls events))"
      by (simp add: filter_map comp_def)
    also have "\<dots> \<le> length (filter (\<lambda>fc. fc_id fc = x) (observedCalls events))"
      by (rule acceptedCalls_count)
    finally show ?thesis .
  qed
  from inv all_inv sub count show ?thesis
    by blast
qed

text \<open>
  One batch with the call 7, then two timeouts (the second finds nothing to fire): the
  response for 7 is sent once, and no response carries the id 8, which was never
  observed.
\<close>

theorem C3_responses_answer_observed_calls_witness:
  "\<not> throwsAt (ToolCallEvent
      \<lparr>functionCalls = [\<lparr>fc_name = ''send_email'', fc_args = Some (JObject []), fc_id = ''7''\<rparr>]\<rparr>)
   \<and> functionResponsesSent (runEvents
      [ToolCallEvent \<lparr>functionCalls = [\<lparr>fc_name = ''send_email'', fc_args = Some (JObject []), fc_id = ''7''\<rparr>]\<rparr>,
       TimeoutFires, TimeoutFires] initialState)
     = [\<lparr>fr_response = successResponse, fr_id = ''7''\<rparr>]
   \<and> ''7'' \<in> fc_id ` set (observedCalls
      [ToolCallEvent \<lparr>functionCalls = [\<lparr>fc_name = ''send_email'', fc_args = Some (JObject []), fc_id = ''7''\<rparr>]\<rparr>,
       TimeoutFires, TimeoutFires])
   \<and> ''8'' \<notin> fc_id ` set (observedCalls
      [ToolCallEvent \<lparr>functionCalls = [\<lparr>fc_name = ''send_email'', fc_args = Some (JObject []), fc_id = ''7''\<rparr>]\<rparr>,
       TimeoutFires, TimeoutFires])
   \<and> ''8'' \<notin> fr_id ` set (functionResponsesSent (runEvents
      [ToolCallEvent \<lparr>functionCalls = [\<lparr>fc_name = ''send_email'', fc_args = Some (JObject []), fc_id = ''7''\<rparr>]\<rparr>,
       TimeoutFires, TimeoutFires] initialState))"
  using C3_responses_answer_observed_calls [of
      "[ToolCallEvent \<lparr>functionCalls = [\<lparr>fc_name = ''send_email'', fc_args = Some (JObject []), fc_id = ''7''\<rparr>]\<rparr>,
       TimeoutFires, TimeoutFires]"]
  by (simp add: runEvents_def onToolCall_def findCall_def renderAltairDeclaration_def
      handlerThrows_def scheduleResponse_def
      timeoutFires_def initialState_def functionResponsesSent_def toolResponseFor_def
      observedCalls_def)





text \<open>
  C6. The configuration handed to \<^verbatim>\<open>setConfig\<close> holds a model identifier, all four
  generation parameters (temperature 0.7, top-k 40, top-p 0.95, at most 2048 output
  tokens), a system instruction of one text part (1202 characters), and the tool list
  with the two function declarations.
\<close>

theorem C6_session_configuration:
  "model (altairConfig sendEmailDeclaration) = ''models/gemini-2.0-flash-exp''
   \<and> generationConfig (altairConfig sendEmailDeclaration)
       = Some \<lparr>temperature = Some (7 / 10), topK = Some 40, topP = Some (95 / 100),
               maxOutputTokens = Some 2048\<rparr>
   \<and> systemInstruction (altairConfig sendEmailDeclaration)
       = Some \<lparr>parts = [Text systemInstructionText]\<rparr>
   \<and> length systemInstructionText = 1202
   \<and> tools (altairConfig sendEmailDeclaration)
       = Some [GoogleSearch, FunctionDeclarations [renderAltairDeclaration, sendEmailDeclaration]]
   \<and> functionDeclarationsOf
        [GoogleSearch, FunctionDeclarations [renderAltairDeclaration, sendEmailDeclaration]]
       = [renderAltairDeclaration, sendEmailDeclaration]"
  by (simp add: altairConfig_def) (simp add: systemInstructionText_def)


section \<open>Properties of the wire protocol codec\<close>

subsection \<open>Numbers as text\<close>

declare write_nat.simps [simp del]

lemma is_digit_digit_char: "d < 10 \<Longrightarrow> is_digit (digit_char d)"
  by (simp add: is_digit_def digit_char_def)

lemma digit_value_digit_char: "d < 10 \<Longrightarrow> digit_value (digit_char d) = d"
  by (simp add: digit_value_def digit_char_def)

lemma digit_char_not_zero: "0 < d \<Longrightarrow> d < 10 \<Longrightarrow> digit_char d \<noteq> CHR ''0''"
proof
  assume "0 < d" "d < 10" "digit_char d = CHR ''0''"
  then have "digit_value (digit_char d) = digit_value (CHR ''0'')"
    by simp
  with \<open>d < 10\<close> have "d = 0"
    by (simp add: digit_value_digit_char) (simp add: digit_value_def)
  with \<open>0 < d\<close> show False by simp
qed

lemma write_nat_small: "n < 10 \<Longrightarrow> write_nat n = [digit_char n]"
  by (simp add: write_nat.simps)

lemma write_nat_large:
  "\<not> n < 10 \<Longrightarrow> write_nat n = write_nat (n div 10) @ [digit_char (n mod 10)]"
  by (subst write_nat.simps) simp

lemma write_nat_digits: "\<forall>c \<in> set (write_nat n). is_digit c"
proof (induction n rule: write_nat.induct)
  case (1 n)
  show ?case
  proof (cases "n < 10")
    case True
    then show ?thesis
      by (simp add: write_nat_small is_digit_digit_char)
  next
    case False
    with 1 show ?thesis
      by (simp add: write_nat_large is_digit_digit_char)
  qed
qed

lemma write_nat_not_empty: "write_nat n \<noteq> []"
  by (cases "n < 10") (simp_all add: write_nat_small write_nat_large)

lemma nat_of_digits_snoc:
  "nat_of_digits (ds @ [c]) = nat_of_digits ds * 10 + digit_value c"
  by (simp add: nat_of_digits_def)

lemma nat_of_digits_write_nat: "nat_of_digits (write_nat n) = n"
proof (induction n rule: write_nat.induct)
  case (1 n)
  show ?case
  proof (cases "n < 10")
    case True
    then show ?thesis
      by (simp add: write_nat_small nat_of_digits_def digit_value_digit_char)
  next
    case False
    with 1 have "nat_of_digits (write_nat (n div 10)) = n div 10"
      by simp
    with False show ?thesis
      by (simp add: write_nat_large nat_of_digits_snoc digit_value_digit_char)
  qed
qed

lemma write_nat_hd: "0 < n \<Longrightarrow> hd (write_nat n) \<noteq> CHR ''0''"
proof (induction n rule: write_nat.induct)
  case (1 n)
  show ?case
  proof (cases "n < 10")
    case True
    with "1.prems" show ?thesis
      by (simp add: write_nat_small digit_char_not_zero)
  next
    case False
    then have "0 < n div 10"
      by simp
    with 1 False have "hd (write_nat (n div 10)) \<noteq> CHR ''0''"
      by simp
    with False show ?thesis
      by (simp add: write_nat_large write_nat_not_empty)
  qed
qed

lemma write_nat_no_leading_zero:
  "\<not> (1 < length (write_nat n) \<and> hd (write_nat n) = CHR ''0'')"
proof (cases "n = 0")
  case True
  then show ?thesis
    by (simp add: write_nat_small)
next
  case False
  then show ?thesis
    using write_nat_hd [of n] by simp
qed

text \<open>Digits are read up to a character that is not a digit.\<close>

lemma takeWhile_digits:
  assumes "\<forall>c \<in> set ds. is_digit c" and "rest = [] \<or> \<not> is_digit (hd rest)"
  shows "takeWhile is_digit (ds @ rest) = ds" and "dropWhile is_digit (ds @ rest) = rest"
proof -
  from assms(2) have "takeWhile is_digit rest = []" and "dropWhile is_digit rest = rest"
    by (cases rest; simp)+
  with assms(1) show "takeWhile is_digit (ds @ rest) = ds"
      and "dropWhile is_digit (ds @ rest) = rest"
    by (simp_all add: takeWhile_append2 dropWhile_append2)
qed

lemma not_digit_chars:
  "\<not> is_digit (CHR ''-'')" "\<not> is_digit (CHR ''e'')" "\<not> is_digit (CHR '','')"
  "\<not> is_digit (CHR '']'')" "\<not> is_digit (CHR ''}'')" "\<not> is_digit (CHR ''.'')"
  by (simp_all add: is_digit_def)

lemma ends_value_not_digit: "ends_value rest \<Longrightarrow> rest = [] \<or> \<not> is_digit (hd rest)"
  by (auto simp: ends_value_def not_digit_chars)

lemma write_nat_hd_digit: "is_digit (hd (write_nat n))"
  using write_nat_digits [of n] write_nat_not_empty [of n]
  by (cases "write_nat n") simp_all

lemma write_nat_hd_not_sign:
  "hd (write_nat n) \<noteq> CHR ''-''" "hd (write_nat n) \<noteq> CHR ''+''"
  using write_nat_hd_digit [of n] by (auto simp: is_digit_def)

lemma hd_write_nat_append: "hd (write_nat n @ rest) = hd (write_nat n)"
  by (simp add: write_nat_not_empty)

lemma read_fraction_none:
  assumes "rest = [] \<or> hd rest \<noteq> CHR ''.''"
  shows "read_fraction rest = Some ([], rest)"
  using assms by (cases rest) (simp_all add: read_fraction_def)

lemma read_exponent_none:
  assumes "rest = [] \<or> (hd rest \<noteq> CHR ''e'' \<and> hd rest \<noteq> CHR ''E'')"
  shows "read_exponent rest = Some (0, rest)"
  using assms by (cases rest) (simp_all add: read_exponent_def)

lemma ends_value_cases:
  assumes "ends_value rest"
  shows "rest = [] \<or> hd rest \<noteq> CHR ''.''"
    and "rest = [] \<or> (hd rest \<noteq> CHR ''e'' \<and> hd rest \<noteq> CHR ''E'')"
  using assms by (auto simp: ends_value_def)

lemma read_exponent_written:
  assumes "e \<noteq> 0" and "ends_value rest"
  shows "read_exponent (CHR ''e'' # write_int e @ rest) = Some (e, rest)"
proof (cases "e < 0")
  case True
  let ?ds = "write_nat (nat (- e))"
  have digits: "takeWhile is_digit (?ds @ rest) = ?ds" "dropWhile is_digit (?ds @ rest) = rest"
    by (rule takeWhile_digits [OF write_nat_digits ends_value_not_digit [OF assms(2)]])+
  from True have "- int (nat_of_digits ?ds) = e"
    by (simp add: nat_of_digits_write_nat)
  with True show ?thesis
    by (simp add: read_exponent_def write_int_def digits write_nat_not_empty)
next
  case False
  let ?ds = "write_nat (nat e)"
  have digits: "takeWhile is_digit (?ds @ rest) = ?ds" "dropWhile is_digit (?ds @ rest) = rest"
    by (rule takeWhile_digits [OF write_nat_digits ends_value_not_digit [OF assms(2)]])+
  from False have "int (nat_of_digits ?ds) = e"
    by (simp add: nat_of_digits_write_nat)
  with False show ?thesis
    by (simp add: read_exponent_def write_int_def digits write_nat_not_empty
        hd_write_nat_append write_nat_hd_not_sign)
qed

lemma read_number_written:
  assumes "ends_value rest"
  shows "read_number (write_number m e @ rest) = Some (JNumber m e, rest)"
proof -
  define tail where "tail = (if e = 0 then [] else CHR ''e'' # write_int e) @ rest"
  define ds where "ds = write_nat (nat \<bar>m\<bar>)"
  have tail_stop: "tail = [] \<or> \<not> is_digit (hd tail)"
    using ends_value_not_digit [OF assms] by (simp add: tail_def not_digit_chars)
  have digits: "takeWhile is_digit (ds @ tail) = ds" "dropWhile is_digit (ds @ tail) = tail"
    unfolding ds_def by (rule takeWhile_digits [OF write_nat_digits tail_stop])+
  have fraction: "read_fraction tail = Some ([], tail)"
    using ends_value_cases(1) [OF assms] by (intro read_fraction_none) (auto simp: tail_def)
  have exponent: "read_exponent tail = Some (e, rest)"
  proof (cases "e = 0")
    case True
    then show ?thesis
      using read_exponent_none [OF ends_value_cases(2) [OF assms]] by (simp add: tail_def)
  next
    case False
    then show ?thesis
      using read_exponent_written [OF False assms] by (simp add: tail_def)
  qed
  have no_zero: "\<not> (1 < length ds \<and> hd (ds @ tail) = CHR ''0'')"
    unfolding ds_def hd_write_nat_append by (rule write_nat_no_leading_zero)
  have ds_not_empty: "ds \<noteq> []"
    by (simp add: ds_def write_nat_not_empty)
  have mantissa: "nat_of_digits ds = nat \<bar>m\<bar>"
    by (simp add: ds_def nat_of_digits_write_nat)
  show ?thesis
  proof (cases "m < 0")
    case True
    then have written: "write_number m e @ rest = CHR ''-'' # ds @ tail"
      by (simp add: write_number_def write_int_def ds_def tail_def abs_if)
    from True have "- int (nat \<bar>m\<bar>) = m"
      by simp
    with no_zero ds_not_empty show ?thesis
      unfolding written
      by (simp add: read_number_def Let_def digits fraction exponent mantissa)
  next
    case False
    then have written: "write_number m e @ rest = ds @ tail"
      by (simp add: write_number_def write_int_def ds_def tail_def abs_if)
    have first: "hd (ds @ tail) \<noteq> CHR ''-''" "ds @ tail \<noteq> []"
      using write_nat_hd_not_sign(1) [of "nat \<bar>m\<bar>"] ds_not_empty
      by (simp_all add: ds_def hd_write_nat_append)
    from False have "int (nat \<bar>m\<bar>) = m"
      by simp
    with no_zero ds_not_empty first show ?thesis
      unfolding written
      by (simp add: read_number_def Let_def digits fraction exponent mantissa)
  qed
qed


subsection \<open>Strings as text\<close>

lemma hex_value_hex_char_all: "\<forall>d \<in> set [0..<16]. hex_value (hex_char d) = Some d"
  by code_simp

lemma hex_value_hex_char: "d < 16 \<Longrightarrow> hex_value (hex_char d) = Some d"
  using hex_value_hex_char_all by simp

lemma hex_value_zero: "hex_value (CHR ''0'') = Some 0"
  by (simp add: hex_value_def is_digit_def digit_value_def)

lemma code_point_control:
  fixes c :: char
  assumes "(of_char c :: nat) < 32"
  shows "code_point (CHR ''0'') (CHR ''0'') (hex_char (of_char c div 16))
           (hex_char (of_char c mod 16)) = Some [c]"
proof -
  define n where "n = (of_char c :: nat)"
  from assms have high: "n div 16 < 16" and low: "n mod 16 < 16"
    by (simp_all add: n_def)
  have joined: "((0 * 16 + 0) * 16 + n div 16) * 16 + n mod 16 = n"
    by simp
  from assms have "utf8 n = Some [c]"
    by (simp add: utf8_def n_def)
  then show ?thesis
    unfolding n_def [symmetric]
    by (simp only: code_point_def hex_value_zero hex_value_hex_char [OF high]
        hex_value_hex_char [OF low] prod.case option.case joined)
qed

lemma read_chars_written:
  "read_chars (concat (map escape_char s) @ CHR 0x22 # rest) = Some (s, rest)"
proof (induction s)
  case Nil
  show ?case by simp
next
  case (Cons c s)
  let ?more = "concat (map escape_char s) @ CHR 0x22 # rest"
  consider (quote) "c = CHR 0x22" | (backslash) "c = CHR 0x5C"
    | (control) "c \<noteq> CHR 0x22" "c \<noteq> CHR 0x5C" "(of_char c :: nat) < 32"
    | (plain) "c \<noteq> CHR 0x22" "c \<noteq> CHR 0x5C" "\<not> (of_char c :: nat) < 32"
    by blast
  then show ?case
  proof cases
    case quote
    then have "read_chars (concat (map escape_char (c # s)) @ CHR 0x22 # rest)
        = read_chars (CHR 0x5C # CHR 0x22 # ?more)"
      by (simp add: escape_char_def)
    also have "\<dots> = map_option (apfst ((#) (CHR 0x22))) (read_chars ?more)"
      by (simp add: simple_escape_def)
    finally show ?thesis
      using quote by (simp add: Cons.IH)
  next
    case backslash
    then have "read_chars (concat (map escape_char (c # s)) @ CHR 0x22 # rest)
        = read_chars (CHR 0x5C # CHR 0x5C # ?more)"
      by (simp add: escape_char_def)
    also have "\<dots> = map_option (apfst ((#) (CHR 0x5C))) (read_chars ?more)"
      by (simp add: simple_escape_def)
    finally show ?thesis
      using backslash by (simp add: Cons.IH)
  next
    case control
    let ?h = "hex_char (of_char c div 16)" and ?l = "hex_char (of_char c mod 16)"
    from control have "read_chars (concat (map escape_char (c # s)) @ CHR 0x22 # rest)
        = read_chars (CHR 0x5C # CHR ''u'' # CHR ''0'' # CHR ''0'' # ?h # ?l # ?more)"
      by (simp add: escape_char_def)
    also have "\<dots> = map_option (apfst ((@) [c])) (read_chars ?more)"
      by (simp add: code_point_control [OF control(3)])
    finally show ?thesis
      by (simp add: Cons.IH)
  next
    case plain
    then have "read_chars (concat (map escape_char (c # s)) @ CHR 0x22 # rest)
        = read_chars (c # ?more)"
      by (simp add: escape_char_def)
    also from plain have "\<dots> = map_option (apfst ((#) c)) (read_chars ?more)"
      by simp
    finally show ?thesis
      by (simp add: Cons.IH)
  qed
qed

lemma read_chars_write_string:
  "\<exists>body. write_string s @ rest = CHR 0x22 # body \<and> read_chars body = Some (s, rest)"
  by (simp add: write_string_def read_chars_written)


subsection \<open>Values as text\<close>

lemma skip_blanks_Cons: "\<not> is_blank c \<Longrightarrow> skip_blanks (c # cs) = c # cs"
  by (simp add: skip_blanks_def)

lemma write_string_append:
  "write_string s @ rest = CHR 0x22 # (concat (map escape_char s) @ CHR 0x22 # rest)"
  by (simp add: write_string_def)

lemma write_number_first:
  "\<exists>c cs. write_number m e = c # cs \<and> (c = CHR ''-'' \<or> is_digit c)"
proof (cases "m < 0")
  case True
  then show ?thesis
    by (simp add: write_number_def write_int_def)
next
  case False
  obtain d ds where ds: "write_nat (nat m) = d # ds"
    using write_nat_not_empty [of "nat m"] by (cases "write_nat (nat m)") simp_all
  with write_nat_hd_digit [of "nat m"] have "is_digit d"
    by simp
  with False ds show ?thesis
    by (simp add: write_number_def write_int_def)
qed

text \<open>The first character of a written value tells the reader what to read.\<close>

lemma digit_is_no_mark:
  assumes "c = CHR ''-'' \<or> is_digit c"
  shows "\<not> is_blank c" "c \<noteq> CHR ''[''" "c \<noteq> CHR ''{''" "c \<noteq> CHR 0x22"
    "c \<noteq> CHR ''n''" "c \<noteq> CHR ''t''" "c \<noteq> CHR ''f''" "c \<noteq> CHR '']''" "c \<noteq> CHR ''}''"
  using assms by (auto simp: is_digit_def is_blank_def)

lemma read_value_number:
  assumes "c = CHR ''-'' \<or> is_digit c"
  shows "read_value (Suc n) (c # cs) = read_number (c # cs)"
  using digit_is_no_mark [OF assms] by (simp add: skip_blanks_Cons)

lemma write_json_first:
  "\<exists>c cs. write_json v = c # cs \<and> \<not> is_blank c \<and> c \<noteq> CHR '']'' \<and> c \<noteq> CHR ''}''"
proof (cases v)
  case JNull
  then show ?thesis by (simp add: is_blank_def)
next
  case (JBool b)
  then show ?thesis by (simp add: is_blank_def)
next
  case (JNumber m e)
  obtain c cs where "write_number m e = c # cs" "c = CHR ''-'' \<or> is_digit c"
    using write_number_first by blast
  with JNumber digit_is_no_mark [of c] show ?thesis
    by simp
next
  case (JString s)
  then show ?thesis by (simp add: write_string_def is_blank_def)
next
  case (JArray vs)
  then show ?thesis by (simp add: is_blank_def)
next
  case (JObject ms)
  then show ?thesis by (simp add: is_blank_def)
qed

lemma write_json_not_empty: "0 < length (write_json v)"
  using write_json_first [of v] by auto

lemma write_elements_first:
  assumes "vs \<noteq> []"
  shows "\<exists>d ds. write_elements vs = d # ds \<and> \<not> is_blank d \<and> d \<noteq> CHR '']''"
proof -
  from assms obtain v ws where vs: "vs = v # ws"
    by (cases vs) simp_all
  obtain c cs where "write_json v = c # cs" "\<not> is_blank c" "c \<noteq> CHR '']''"
    using write_json_first [of v] by blast
  then show ?thesis
    unfolding vs by (cases ws) simp_all
qed

lemma write_members_first:
  assumes "ms \<noteq> []"
  shows "\<exists>ds. write_members ms = CHR 0x22 # ds"
proof -
  from assms obtain k v ws where ms: "ms = (k, v) # ws"
    by (cases ms) auto
  show ?thesis
    unfolding ms by (cases ws) (simp_all add: write_string_def)
qed

lemma blank_marks:
  "\<not> is_blank (CHR '','')" "\<not> is_blank (CHR '']'')" "\<not> is_blank (CHR ''}'')"
  "\<not> is_blank (CHR '':'')" "\<not> is_blank (CHR 0x22)" "\<not> is_blank (CHR ''['')"
  "\<not> is_blank (CHR ''{'')" "\<not> is_blank (CHR ''n'')" "\<not> is_blank (CHR ''t'')"
  "\<not> is_blank (CHR ''f'')"
  by (simp_all add: is_blank_def)

lemma ends_value_marks:
  "ends_value (CHR '','' # r)" "ends_value (CHR '']'' # r)" "ends_value (CHR ''}'' # r)"
  "ends_value []"
  by (simp_all add: ends_value_def)

lemma read_written:
  "length (write_json v) \<le> n \<Longrightarrow> ends_value rest \<Longrightarrow>
     read_value n (write_json v @ rest) = Some (v, rest)"
  "vs \<noteq> [] \<Longrightarrow> length (write_elements vs) \<le> n \<Longrightarrow>
     read_elements n (write_elements vs @ rest) = Some (vs, rest)"
  "ms \<noteq> [] \<Longrightarrow> length (write_members ms) \<le> n \<Longrightarrow>
     read_members n (write_members ms @ rest) = Some (ms, rest)"
proof (induction v and vs and ms arbitrary: n rest and n rest and n rest
    rule: write_json_write_elements_write_members.induct)
  case 1
  then obtain k where "n = Suc k"
    by (cases n) simp_all
  then show ?case
    by (simp add: skip_blanks_Cons blank_marks)
next
  case (2 b)
  then obtain k where "n = Suc k"
    by (cases n) (simp_all split: if_splits)
  then show ?case
    by (cases b) (simp_all add: skip_blanks_Cons blank_marks)
next
  case (3 m e)
  obtain c cs where first: "write_number m e = c # cs" "c = CHR ''-'' \<or> is_digit c"
    using write_number_first by blast
  with 3 obtain k where n: "n = Suc k"
    by (cases n) simp_all
  have "read_value n (write_json (JNumber m e) @ rest) = read_number (write_number m e @ rest)"
    using read_value_number [OF first(2)] by (simp add: n first(1))
  with 3 show ?case
    by (simp add: read_number_written)
next
  case (4 s)
  then obtain k where n: "n = Suc k"
    by (cases n) (simp_all add: write_string_def)
  show ?case
    by (simp add: n write_string_append skip_blanks_Cons blank_marks read_chars_written)
next
  case (5 vs)
  then obtain k where n: "n = Suc k" and len: "length (write_elements vs) \<le> k"
    by (cases n) simp_all
  show ?case
  proof (cases "vs = []")
    case True
    then show ?thesis
      by (simp add: n skip_blanks_Cons blank_marks)
  next
    case False
    then obtain d ds where first: "write_elements vs = d # ds" "\<not> is_blank d" "d \<noteq> CHR '']''"
      using write_elements_first by blast
    have "read_elements k (write_elements vs @ rest) = Some (vs, rest)"
      using False len by (rule "5.IH")
    then have "read_elements k (d # ds @ rest) = Some (vs, rest)"
      by (simp add: first(1))
    with first show ?thesis
      by (simp add: n skip_blanks_Cons blank_marks)
  qed
next
  case (6 ms)
  then obtain k where n: "n = Suc k" and len: "length (write_members ms) \<le> k"
    by (cases n) simp_all
  show ?case
  proof (cases "ms = []")
    case True
    then show ?thesis
      by (simp add: n skip_blanks_Cons blank_marks)
  next
    case False
    then obtain ds where first: "write_members ms = CHR 0x22 # ds"
      using write_members_first by blast
    have "read_members k (write_members ms @ rest) = Some (ms, rest)"
      using False len by (rule "6.IH")
    then have "read_members k (CHR 0x22 # ds @ rest) = Some (ms, rest)"
      by (simp add: first)
    with first show ?thesis
      by (simp add: n skip_blanks_Cons blank_marks)
  qed
next
  case 7
  then show ?case by simp
next
  case (8 v)
  from "8.prems" write_json_not_empty [of v]
  obtain k where n: "n = Suc k" and len: "length (write_json v) \<le> k"
    by (cases n) simp_all
  have "read_value k (write_json v @ CHR '']'' # rest) = Some (v, CHR '']'' # rest)"
    using len ends_value_marks(2) by (rule "8.IH")
  then show ?case
    by (simp add: n skip_blanks_Cons blank_marks)
next
  case (9 v w vs)
  from "9.prems"
  obtain k where n: "n = Suc k" and len: "length (write_json v) \<le> k"
      and len': "length (write_elements (w # vs)) \<le> k"
    by (cases n) simp_all
  have "read_value k (write_json v @ CHR '','' # write_elements (w # vs) @ rest)
      = Some (v, CHR '','' # write_elements (w # vs) @ rest)"
    using len ends_value_marks(1) by (rule "9.IH"(1))
  moreover have "read_elements k (write_elements (w # vs) @ rest) = Some (w # vs, rest)"
    using len' by (intro "9.IH"(2)) simp_all
  ultimately show ?case
    by (simp add: n skip_blanks_Cons blank_marks)
next
  case 10
  then show ?case by simp
next
  case (11 k v)
  from "11.prems"
  obtain j where n: "n = Suc j" and len: "length (write_json v) \<le> j"
    by (cases n) simp_all
  have "read_value j (write_json v @ CHR ''}'' # rest) = Some (v, CHR ''}'' # rest)"
    using len ends_value_marks(3) by (rule "11.IH")
  then show ?case
    by (simp add: n write_string_append skip_blanks_Cons blank_marks read_chars_written)
next
  case (12 k v m ms)
  from "12.prems"
  obtain j where n: "n = Suc j" and len: "length (write_json v) \<le> j"
      and len': "length (write_members (m # ms)) \<le> j"
    by (cases n) simp_all
  have "read_value j (write_json v @ CHR '','' # write_members (m # ms) @ rest)
      = Some (v, CHR '','' # write_members (m # ms) @ rest)"
    using len ends_value_marks(1) by (rule "12.IH"(1))
  moreover have "read_members j (write_members (m # ms) @ rest) = Some (m # ms, rest)"
    using len' by (intro "12.IH"(2)) simp_all
  ultimately show ?case
    by (simp add: n write_string_append skip_blanks_Cons blank_marks read_chars_written)
qed

lemma read_json_write_json: "read_json (write_json v) = Some v"
proof -
  have "read_value (length (write_json v)) (write_json v @ []) = Some (v, [])"
    by (rule read_written(1)) (simp_all add: ends_value_marks)
  then show ?thesis
    by (simp add: read_json_def skip_blanks_def)
qed


subsection \<open>Base64 and the envelope\<close>

lemma base64_alphabet_length: "length base64_alphabet = 64"
  by (simp add: base64_alphabet_def)

lemma base64_alphabet_distinct: "distinct base64_alphabet"
  by (simp add: base64_alphabet_def)

lemma pad_not_in_alphabet: "CHR ''='' \<notin> set base64_alphabet"
  by (simp add: base64_alphabet_def)

lemma index_of_nth:
  "distinct xs \<Longrightarrow> n < length xs \<Longrightarrow> index_of (xs ! n) xs = n"
proof (induction xs arbitrary: n)
  case Nil
  then show ?case by simp
next
  case (Cons x xs)
  show ?case
  proof (cases n)
    case 0
    then show ?thesis by simp
  next
    case (Suc k)
    with Cons.prems have "k < length xs" and "xs ! k \<noteq> x"
      by auto
    with Cons Suc show ?thesis by auto
  qed
qed

lemma char_sextet_sextet_char: "n < 64 \<Longrightarrow> char_sextet (sextet_char n) = Some n"
  by (simp add: char_sextet_def sextet_char_def index_of_nth base64_alphabet_distinct
      base64_alphabet_length)

lemma sextet_char_not_pad:
  assumes "n < 64"
  shows "sextet_char n \<noteq> CHR ''=''"
proof -
  from assms have "base64_alphabet ! n \<in> set base64_alphabet"
    by (simp add: base64_alphabet_length)
  with pad_not_in_alphabet show ?thesis
    by (auto simp: sextet_char_def)
qed

text \<open>The four sextets of three bytes are below 64, and the bytes are rebuilt from them.\<close>

lemma sextet1_bound: "(x::nat) < 256 \<Longrightarrow> x div 4 < 64"
  by simp

lemma sextet2_bound:
  assumes "(y::nat) < 256"
  shows "(x mod 4) * 16 + y div 16 < 64"
proof -
  have "x mod 4 < 4" by simp
  moreover from assms have "y div 16 < 16" by simp
  ultimately show ?thesis by linarith
qed

lemma sextet3_bound:
  assumes "(z::nat) < 256"
  shows "(y mod 16) * 4 + z div 64 < 64"
proof -
  have "y mod 16 < 16" by simp
  moreover from assms have "z div 64 < 4" by simp
  ultimately show ?thesis by linarith
qed

lemma byte1_rebuilt:
  assumes "(y::nat) < 256"
  shows "x div 4 * 4 + ((x mod 4) * 16 + y div 16) div 16 = x"
proof -
  from assms have "y div 16 < 16" by simp
  then have "((x mod 4) * 16 + y div 16) div 16 = x mod 4" by simp
  then show ?thesis by simp
qed

lemma byte2_rebuilt:
  assumes "(y::nat) < 256" and "(z::nat) < 256"
  shows "(((x mod 4) * 16 + y div 16) mod 16) * 16 + ((y mod 16) * 4 + z div 64) div 4 = y"
proof -
  from assms have a: "y div 16 < 16" and b: "z div 64 < 4" by simp_all
  from a have "((x mod 4) * 16 + y div 16) mod 16 = y div 16" by simp
  moreover from b have "((y mod 16) * 4 + z div 64) div 4 = y mod 16" by simp
  ultimately show ?thesis by simp
qed

lemma byte3_rebuilt:
  assumes "(z::nat) < 256"
  shows "(((y mod 16) * 4 + z div 64) mod 4) * 64 + z mod 64 = z"
proof -
  from assms have "z div 64 < 4" by simp
  then have "((y mod 16) * 4 + z div 64) mod 4 = z div 64" by simp
  then show ?thesis by simp
qed

lemma decode_group_three:
  fixes a b c :: char
  defines "x \<equiv> of_char a :: nat" and "y \<equiv> of_char b :: nat" and "z \<equiv> of_char c :: nat"
  shows "decode_group (sextet_char (x div 4)) (sextet_char ((x mod 4) * 16 + y div 16))
           (sextet_char ((y mod 16) * 4 + z div 64)) (sextet_char (z mod 64))
         = Some [a, b, c]"
proof -
  have bounds: "x < 256" "y < 256" "z < 256"
    by (simp_all add: x_def y_def z_def)
  have s1: "char_sextet (sextet_char (x div 4)) = Some (x div 4)"
    by (rule char_sextet_sextet_char) (rule sextet1_bound [OF bounds(1)])
  have s2: "char_sextet (sextet_char ((x mod 4) * 16 + y div 16))
      = Some ((x mod 4) * 16 + y div 16)"
    by (rule char_sextet_sextet_char) (rule sextet2_bound [OF bounds(2)])
  have s3: "char_sextet (sextet_char ((y mod 16) * 4 + z div 64))
      = Some ((y mod 16) * 4 + z div 64)"
    by (rule char_sextet_sextet_char) (rule sextet3_bound [OF bounds(3)])
  have s4: "char_sextet (sextet_char (z mod 64)) = Some (z mod 64)"
    by (rule char_sextet_sextet_char) simp
  have p3: "sextet_char ((y mod 16) * 4 + z div 64) \<noteq> CHR ''=''"
    by (rule sextet_char_not_pad) (rule sextet3_bound [OF bounds(3)])
  have p4: "sextet_char (z mod 64) \<noteq> CHR ''=''"
    by (rule sextet_char_not_pad) simp
  have chars: "char_of x = a" "char_of y = b" "char_of z = c"
    by (simp_all add: x_def y_def z_def)
  show ?thesis
    unfolding decode_group_def s1 s2 s3 s4
    by (simp only: p3 p4 prod.case option.case if_False simp_thms
        byte1_rebuilt [OF bounds(2)] byte2_rebuilt [OF bounds(2) bounds(3)]
        byte3_rebuilt [OF bounds(3)] chars)
qed

lemma decode_group_two:
  fixes a b :: char
  defines "x \<equiv> of_char a :: nat" and "y \<equiv> of_char b :: nat"
  shows "decode_group (sextet_char (x div 4)) (sextet_char ((x mod 4) * 16 + y div 16))
           (sextet_char ((y mod 16) * 4)) (CHR ''='')
         = Some [a, b]"
proof -
  have bounds: "x < 256" "y < 256"
    by (simp_all add: x_def y_def)
  have zero: "(0::nat) < 256" "(0::nat) div 64 = 0"
    by simp_all
  have s1: "char_sextet (sextet_char (x div 4)) = Some (x div 4)"
    by (rule char_sextet_sextet_char) (rule sextet1_bound [OF bounds(1)])
  have s2: "char_sextet (sextet_char ((x mod 4) * 16 + y div 16))
      = Some ((x mod 4) * 16 + y div 16)"
    by (rule char_sextet_sextet_char) (rule sextet2_bound [OF bounds(2)])
  have b3: "(y mod 16) * 4 < 64"
    using sextet3_bound [OF zero(1), of y] by simp
  have s3: "char_sextet (sextet_char ((y mod 16) * 4)) = Some ((y mod 16) * 4)"
    by (rule char_sextet_sextet_char) (rule b3)
  have p3: "sextet_char ((y mod 16) * 4) \<noteq> CHR ''=''"
    by (rule sextet_char_not_pad) (rule b3)
  have second: "(((x mod 4) * 16 + y div 16) mod 16) * 16 + ((y mod 16) * 4) div 4 = y"
    using byte2_rebuilt [OF bounds(2) zero(1), of x] by simp
  have chars: "char_of x = a" "char_of y = b"
    by (simp_all add: x_def y_def)
  show ?thesis
    unfolding decode_group_def s1 s2 s3
    by (simp only: p3 prod.case option.case if_False if_True simp_thms
        byte1_rebuilt [OF bounds(2)] second chars)
qed

lemma decode_group_one:
  fixes a :: char
  defines "x \<equiv> of_char a :: nat"
  shows "decode_group (sextet_char (x div 4)) (sextet_char ((x mod 4) * 16))
           (CHR ''='') (CHR ''='')
         = Some [a]"
proof -
  have bounds: "x < 256"
    by (simp add: x_def)
  have zero: "(0::nat) < 256"
    by simp
  have s1: "char_sextet (sextet_char (x div 4)) = Some (x div 4)"
    by (rule char_sextet_sextet_char) (rule sextet1_bound [OF bounds])
  have b2: "(x mod 4) * 16 < 64"
    using sextet2_bound [OF zero, of x] by simp
  have s2: "char_sextet (sextet_char ((x mod 4) * 16)) = Some ((x mod 4) * 16)"
    by (rule char_sextet_sextet_char) (rule b2)
  have first: "x div 4 * 4 + ((x mod 4) * 16) div 16 = x"
    using byte1_rebuilt [OF zero, of x] by simp
  have chars: "char_of x = a"
    by (simp add: x_def)
  show ?thesis
    unfolding decode_group_def s1 s2
    by (simp only: prod.case option.case if_True simp_thms first chars)
qed

lemma base64_roundtrip: "base64_decode (base64_encode bytes) = Some bytes"
proof (induction bytes rule: base64_encode.induct)
  case (1 a b c rest)
  have last_not_pad: "sextet_char (of_char c mod 64) \<noteq> CHR ''=''"
    by (rule sextet_char_not_pad) simp
  have "base64_decode (base64_encode (a # b # c # rest))
      = base64_decode (sextet_char (of_char a div 4)
          # sextet_char ((of_char a mod 4) * 16 + of_char b div 16)
          # sextet_char ((of_char b mod 16) * 4 + of_char c div 64)
          # sextet_char (of_char c mod 64) # base64_encode rest)"
    by (simp only: base64_encode.simps Let_def append.simps)
  also have "\<dots> = map_option ((@) [a, b, c]) (base64_decode (base64_encode rest))"
    by (simp only: base64_decode.simps last_not_pad decode_group_three option.case
        if_False simp_thms)
  also have "\<dots> = Some (a # b # c # rest)"
    by (simp only: "1.IH" option.map append.simps)
  finally show ?case .
next
  case (2 a b)
  have "base64_decode (base64_encode [a, b])
      = base64_decode [sextet_char (of_char a div 4),
          sextet_char ((of_char a mod 4) * 16 + of_char b div 16),
          sextet_char ((of_char b mod 16) * 4), CHR ''='']"
    by (simp only: base64_encode.simps Let_def)
  also have "\<dots> = Some [a, b]"
    by (simp add: decode_group_two)
  finally show ?case .
next
  case (3 a)
  have "base64_decode (base64_encode [a])
      = base64_decode [sextet_char (of_char a div 4), sextet_char ((of_char a mod 4) * 16),
          CHR ''='', CHR ''='']"
    by (simp only: base64_encode.simps Let_def)
  also have "\<dots> = Some [a]"
    by (simp add: decode_group_one)
  finally show ?case .
next
  case 4
  show ?case by simp
qed

lemma those_map_roundtrip:
  assumes "\<And>x. item (to_json x) = Some x"
  shows "those (map item (map to_json xs)) = Some xs"
  by (induction xs) (simp_all add: assms)

lemma list_member_roundtrip:
  assumes "\<And>x. item (to_json x) = Some x"
    and "map_of members key = Some (JArray (map to_json xs))"
  shows "list_member item members key = Some xs"
proof -
  have "those (map item (map to_json xs)) = Some xs"
    using assms(1) by (rule those_map_roundtrip)
  with assms(2) show ?thesis
    by (simp add: list_member_def array_member_def)
qed

lemma call_roundtrip: "call_of_json (call_to_json c) = Some c"
  by (simp add: call_of_json_def call_to_json_def string_member_def)

lemma error_name_roundtrip: "error_of_name (error_name e) = Some e"
  by (cases e) (simp_all add: error_of_name_def)

lemma response_roundtrip: "response_of_json (response_to_json r) = Some r"
proof (cases "response_outcome r")
  case (Result v)
  then have "r = \<lparr>response_id = response_id r, response_outcome = Result v\<rparr>"
    by simp
  with Result show ?thesis
    by (simp add: response_of_json_def response_to_json_def string_member_def)
next
  case (Error e)
  then have "r = \<lparr>response_id = response_id r, response_outcome = Error e\<rparr>"
    by simp
  with Error show ?thesis
    by (simp add: response_of_json_def response_to_json_def string_member_def
        error_name_roundtrip)
qed

lemma part_roundtrip: "part_of_json (part_to_json p) = Some p"
proof (cases p)
  case (TextPart t)
  then show ?thesis
    by (simp add: part_of_json_def string_member_def)
next
  case (DataPart mime bytes)
  then show ?thesis
    by (simp add: part_of_json_def string_member_def bytes_member_def base64_roundtrip)
qed

lemma chunk_roundtrip: "chunk_of_json (chunk_to_json c) = Some c"
proof (cases c)
  case (AudioChunk bytes mime rate)
  then show ?thesis
    by (simp add: chunk_of_json_def string_member_def bytes_member_def nat_member_def
        nat_of_number_def base64_roundtrip)
next
  case (VideoChunk bytes mime)
  then show ?thesis
    by (simp add: chunk_of_json_def string_member_def bytes_member_def base64_roundtrip)
qed

lemma envelope_roundtrip: "of_envelope (to_envelope m) = Inr m"
proof (cases m)
  case (Setup config)
  then show ?thesis
    by (simp add: of_envelope_def variant_of_def or_malformed_def)
next
  case SetupComplete
  then show ?thesis
    by (simp add: of_envelope_def variant_of_def or_malformed_def)
next
  case (ClientContent ps turnComplete)
  have "list_member part_of_json
      [(''parts'', JArray (map part_to_json ps)), (''turnComplete'', JBool turnComplete)]
      ''parts'' = Some ps"
    by (rule list_member_roundtrip [where item = part_of_json and to_json = part_to_json])
       (simp_all add: part_roundtrip)
  with ClientContent show ?thesis
    by (simp add: of_envelope_def variant_of_def or_malformed_def bool_member_def)
next
  case (RealtimeInput chunks)
  have "list_member chunk_of_json [(''chunks'', JArray (map chunk_to_json chunks))] ''chunks''
      = Some chunks"
    by (rule list_member_roundtrip [where item = chunk_of_json and to_json = chunk_to_json])
       (simp_all add: chunk_roundtrip)
  with RealtimeInput show ?thesis
    by (simp add: of_envelope_def variant_of_def or_malformed_def)
next
  case (ServerContent ps turnComplete interrupted)
  have "list_member part_of_json
      [(''parts'', JArray (map part_to_json ps)), (''turnComplete'', JBool turnComplete),
       (''interrupted'', JBool interrupted)] ''parts'' = Some ps"
    by (rule list_member_roundtrip [where item = part_of_json and to_json = part_to_json])
       (simp_all add: part_roundtrip)
  with ServerContent show ?thesis
    by (simp add: of_envelope_def variant_of_def or_malformed_def bool_member_def)
next
  case (ToolCallMessage calls)
  have "list_member call_of_json [(''calls'', JArray (map call_to_json calls))] ''calls''
      = Some calls"
    by (rule list_member_roundtrip [where item = call_of_json and to_json = call_to_json])
       (simp_all add: call_roundtrip)
  with ToolCallMessage show ?thesis
    by (simp add: of_envelope_def variant_of_def or_malformed_def)
next
  case (ToolResponseMessage responses)
  have "list_member response_of_json
      [(''responses'', JArray (map response_to_json responses))] ''responses''
      = Some responses"
    by (rule list_member_roundtrip [where item = response_of_json and to_json = response_to_json])
       (simp_all add: response_roundtrip)
  with ToolResponseMessage show ?thesis
    by (simp add: of_envelope_def variant_of_def or_malformed_def)
qed

text \<open>
  C4. For every wire message \<open>m\<close>, of every variant, decoding the bytes that encode \<open>m\<close>
  gives \<open>m\<close> again: \<open>decode (encode m) = m\<close>.
\<close>

theorem C4_decode_encode: "decode (encode m) = Inr m"
  by (simp add: decode_def encode_def read_json_write_json envelope_roundtrip)

text \<open>
  The tool response of the specification's scenario, an UnknownTool error for the call
  42: its bytes, and the message read back from them.
\<close>

theorem C4_decode_encode_witness:
  \<open>encode (ToolResponseMessage [\<lparr>response_id = ''42'', response_outcome = Error UnknownTool\<rparr>])
     = ''{"ToolResponse":{"responses":[{"id":"42","error":"UnknownTool"}]}}''
   \<and> decode ''{"ToolResponse":{"responses":[{"id":"42","error":"UnknownTool"}]}}''
     = Inr (ToolResponseMessage [\<lparr>response_id = ''42'', response_outcome = Error UnknownTool\<rparr>])\<close>
proof -
  let ?m = "ToolResponseMessage [\<lparr>response_id = ''42'', response_outcome = Error UnknownTool\<rparr>]"
  have bytes: \<open>encode ?m = ''{"ToolResponse":{"responses":[{"id":"42","error":"UnknownTool"}]}}''\<close>
    by code_simp
  have "decode (encode ?m) = Inr ?m"
    by (rule C4_decode_encode)
  then have \<open>decode ''{"ToolResponse":{"responses":[{"id":"42","error":"UnknownTool"}]}}'' = Inr ?m\<close>
    by (simp only: bytes)
  with bytes show ?thesis
    by (rule conjI)
qed


end
